theory Spec2Isabelle
  imports Main "HOL-Library.Word"
begin

section \<open>The proposal ledger of the voting contracts\<close>

text \<open>
  The repository holds two Solidity contracts (pragma \<open>^0.8.20\<close>): \<open>FlowVoting\<close>
  (\<open>contracts/flowVoting.sol\<close>) and \<open>HederaVoting\<close>. Their \<open>Proposal\<close> struct and the
  functions \<open>createProposal\<close>, \<open>getProposal\<close>, \<open>getActiveProposals\<close> and
  \<open>getTotalProposals\<close> are the same text in both; \<open>vote\<close> differs, and each contract
  has one storage variable and one view of its own (\<open>hasVoted\<close> and \<open>hasUserVoted\<close>,
  \<open>voters\<close> and \<open>getVoters\<close>).

  The embedding:
  \<^item> \<open>uint256\<close> is a 256-bit word and \<open>address\<close> a 160-bit word. Arithmetic of
    Solidity 0.8 is checked: an increment of the greatest value reverts with
    \<open>Panic(0x11)\<close>, an array index out of range with \<open>Panic(0x32)\<close>.
  \<^item> \<open>string\<close> is a list of bytes.
  \<^item> a \<open>mapping\<close> is a total function: a key never written reads as the zero value.
  \<^item> a call that changes state returns either the error it reverts with, or a receipt:
    the state after the call, the events it emitted, and the words it returns. A call
    that reverts changes nothing.
  \<^item> \<open>block.timestamp\<close> and \<open>msg.sender\<close> are the fields of an environment given to
    each call.
  \<^item> \<open>new uint256[](n)\<close> reverts with \<open>Panic(0x41)\<close> when \<open>n\<close> is \<open>2^64\<close> or more: the
    compiler checks the length before it allocates.
  Gas is not modelled: a call is followed to its end.
\<close>

subsection \<open>Data\<close>

type_synonym uint256 = "256 word"
type_synonym address = "160 word"

record Proposal =
  proposalId :: uint256
  parkName :: string
  message :: string
  parkSize :: uint256
  chatTopicHistory :: string
  creator :: address
  yesVotes :: uint256
  noVotes :: uint256
  deadline :: uint256
  exists :: bool

text \<open>The value a \<open>mapping(uint256 => Proposal)\<close> holds at a key never written.\<close>

definition zero_Proposal :: Proposal where
  "zero_Proposal =
     \<lparr>proposalId = 0, parkName = [], message = [], parkSize = 0, chatTopicHistory = [],
      creator = 0, yesVotes = 0, noVotes = 0, deadline = 0, exists = False\<rparr>"

text \<open>
  The storage both contracts declare (\<open>proposals\<close>, \<open>proposalCount\<close>), extended by
  \<open>hasVoted\<close> in \<open>FlowVoting\<close> and by \<open>voters\<close> in \<open>HederaVoting\<close>.
\<close>

record Ledger =
  proposals :: "uint256 \<Rightarrow> Proposal"
  proposalCount :: uint256

record FlowVoting = Ledger +
  hasVoted :: "uint256 \<Rightarrow> address \<Rightarrow> bool"

record HederaVoting = Ledger +
  voters :: "uint256 \<Rightarrow> address list"

definition FlowVoting_init :: FlowVoting where
  "FlowVoting_init =
     \<lparr>proposals = (\<lambda>i. zero_Proposal), proposalCount = 0, hasVoted = (\<lambda>i a. False)\<rparr>"

definition HederaVoting_init :: HederaVoting where
  "HederaVoting_init =
     \<lparr>proposals = (\<lambda>i. zero_Proposal), proposalCount = 0, voters = (\<lambda>i. [])\<rparr>"

record Env =
  block_timestamp :: uint256
  msg_sender :: address

datatype event =
  ProposalCreated uint256 string string uint256 string address uint256
  | VoteCast uint256 address bool

text \<open>
  \<open>Error\<close> carries the message of a failed \<open>require\<close>, \<open>Panic\<close> the code of a failed
  built-in check: 17 is \<open>0x11\<close> (arithmetic overflow), 50 is \<open>0x32\<close> (index out of
  range), 65 is \<open>0x41\<close> (an array too large to allocate).
\<close>

datatype error = Error string | Panic nat

text \<open>
  What a call that succeeds leaves: the state, the events and the values returned (the
  words of the return data; none for a function without a \<open>returns\<close> clause).
\<close>

record 's receipt =
  post :: 's
  emitted :: "event list"
  returndata :: "uint256 list"

text \<open>
  The four rejections that the specification names, as the messages the contracts revert
  with.
\<close>

definition InvalidDeadline :: error where
  "InvalidDeadline = Error ''Deadline must be in the future''"

definition ProposalNotFound :: error where
  "ProposalNotFound = Error ''Proposal does not exist''"

definition VotingClosed :: error where
  "VotingClosed = Error ''Voting period has ended''"

definition DuplicateVote :: error where
  "DuplicateVote = Error ''Already voted on this proposal''"

subsection \<open>Checked arithmetic\<close>

text \<open>\<open>x++\<close> and \<open>x += 1\<close> on a \<open>uint256\<close>, outside an \<open>unchecked\<close> block.\<close>

definition checked_inc :: "uint256 \<Rightarrow> error + uint256" where
  "checked_inc x = (if x = - 1 then Inl (Panic 17) else Inr (x + 1))"

lemma unat_inc: "(x :: uint256) \<noteq> - 1 \<Longrightarrow> unat (x + 1) = Suc (unat x)"
  using unatSuc [of x] by (simp add: add_eq_0_iff add.commute)

lemma checked_inc_Inr:
  "checked_inc x = Inr y \<Longrightarrow> x \<noteq> - 1 \<and> y = x + 1 \<and> unat y = Suc (unat x)"
  by (auto simp: checked_inc_def unat_inc split: if_splits)

subsection \<open>require, arrays in memory\<close>

text \<open>\<open>require(c, msg); rest\<close>: the rest runs when \<open>c\<close> holds, else the call reverts.\<close>

definition require :: "bool \<Rightarrow> string \<Rightarrow> error + 'a \<Rightarrow> error + 'a" where
  "require c msg rest = (if c then rest else Inl (Error msg))"

text \<open>\<open>xs[i] = v\<close> and \<open>xs[i]\<close> on a memory array, with the bounds check of the language.\<close>

definition array_set :: "'a list \<Rightarrow> uint256 \<Rightarrow> 'a \<Rightarrow> error + 'a list" where
  "array_set xs i v = (if unat i < length xs then Inr (xs[unat i := v]) else Inl (Panic 50))"

definition array_get :: "'a list \<Rightarrow> uint256 \<Rightarrow> error + 'a" where
  "array_get xs i = (if unat i < length xs then Inr (xs ! unat i) else Inl (Panic 50))"

text \<open>
  \<open>new uint256[](n)\<close>: \<open>n\<close> zeros. The allocation checks the length first and reverts
  with \<open>Panic(0x41)\<close> when it is greater than \<open>2^64 - 1\<close>.
\<close>

definition new_array :: "uint256 \<Rightarrow> error + uint256 list" where
  "new_array n = (if unat n < 2 ^ 64 then Inr (replicate (unat n) 0) else Inl (Panic 65))"

subsection \<open>createProposal (both contracts)\<close>

text \<open>
  \<^verbatim>\<open>
  function createProposal(string memory _parkName, string memory _message,
      uint256 _parkSize, string memory _chatTopicHistory, uint256 _deadline) external {
      require(_deadline > block.timestamp, "Deadline must be in the future");
      proposalCount++;
      uint256 newProposalId = proposalCount;
      proposals[newProposalId] = Proposal({ proposalId: newProposalId, ...,
          creator: msg.sender, yesVotes: 0, noVotes: 0, deadline: _deadline, exists: true });
      emit ProposalCreated(newProposalId, ..., msg.sender, _deadline);
  }
  \<close>
  The function has no \<open>returns\<close> clause.
\<close>

definition createProposal ::
  "string \<Rightarrow> string \<Rightarrow> uint256 \<Rightarrow> string \<Rightarrow> uint256 \<Rightarrow> Env \<Rightarrow> 'a Ledger_scheme
     \<Rightarrow> error + 'a Ledger_scheme receipt" where
  "createProposal parkName' message' parkSize' chatTopicHistory' deadline' env s =
     require (deadline' > block_timestamp env) ''Deadline must be in the future''
       (case checked_inc (proposalCount s) of
          Inl e \<Rightarrow> Inl e
        | Inr newProposalId \<Rightarrow>
            Inr \<lparr>post = s\<lparr>proposalCount := newProposalId,
                          proposals := (proposals s)(newProposalId :=
                            \<lparr>proposalId = newProposalId, parkName = parkName',
                             message = message', parkSize = parkSize',
                             chatTopicHistory = chatTopicHistory', creator = msg_sender env,
                             yesVotes = 0, noVotes = 0, deadline = deadline',
                             exists = True\<rparr>)\<rparr>,
                 emitted = [ProposalCreated newProposalId parkName' message' parkSize'
                              chatTopicHistory' (msg_sender env) deadline'],
                 returndata = []\<rparr>)"

subsection \<open>vote\<close>

text \<open>
  The branch both contracts share:
  \<^verbatim>\<open>if (_support) { p.yesVotes += 1; } else { p.noVotes += 1; }\<close>
\<close>

definition count_vote :: "bool \<Rightarrow> Proposal \<Rightarrow> error + Proposal" where
  "count_vote support p =
     (if support then
        (case checked_inc (yesVotes p) of
           Inl e \<Rightarrow> Inl e
         | Inr y \<Rightarrow> Inr (p\<lparr>yesVotes := y\<rparr>))
      else
        (case checked_inc (noVotes p) of
           Inl e \<Rightarrow> Inl e
         | Inr n \<Rightarrow> Inr (p\<lparr>noVotes := n\<rparr>)))"

text \<open>
  \<open>FlowVoting.vote(_proposalId, _support)\<close>: the voter is \<open>msg.sender\<close>.
  \<^verbatim>\<open>
  Proposal storage p = proposals[_proposalId];
  require(p.exists, "Proposal does not exist");
  require(block.timestamp <= p.deadline, "Voting period has ended");
  require(!hasVoted[_proposalId][msg.sender], "Already voted on this proposal");
  hasVoted[_proposalId][msg.sender] = true;
  if (_support) { p.yesVotes += 1; } else { p.noVotes += 1; }
  emit VoteCast(_proposalId, msg.sender, _support);
  \<close>
\<close>

definition FlowVoting_vote ::
  "uint256 \<Rightarrow> bool \<Rightarrow> Env \<Rightarrow> FlowVoting \<Rightarrow> error + FlowVoting receipt" where
  "FlowVoting_vote proposalId' support env s =
     require (exists (proposals s proposalId')) ''Proposal does not exist''
    (require (block_timestamp env \<le> deadline (proposals s proposalId'))
       ''Voting period has ended''
    (require (\<not> hasVoted s proposalId' (msg_sender env)) ''Already voted on this proposal''
       (let s1 = s\<lparr>hasVoted := (hasVoted s)(proposalId' :=
                       (hasVoted s proposalId')(msg_sender env := True))\<rparr>
        in case count_vote support (proposals s1 proposalId') of
             Inl e \<Rightarrow> Inl e
           | Inr p \<Rightarrow>
               Inr \<lparr>post = s1\<lparr>proposals := (proposals s1)(proposalId' := p)\<rparr>,
                    emitted = [VoteCast proposalId' (msg_sender env) support],
                    returndata = []\<rparr>)))"

text \<open>
  \<open>HederaVoting.vote(_proposalId, _support, _voter)\<close>: the voter is an argument, and
  nothing is checked about it.
  \<^verbatim>\<open>
  Proposal storage p = proposals[_proposalId];
  require(p.exists, "Proposal does not exist");
  require(block.timestamp <= p.deadline, "Voting period has ended");
  if (_support) { p.yesVotes += 1; } else { p.noVotes += 1; }
  voters[_proposalId].push(_voter);
  emit VoteCast(_proposalId, _voter, _support);
  \<close>
\<close>

definition HederaVoting_vote ::
  "uint256 \<Rightarrow> bool \<Rightarrow> address \<Rightarrow> Env \<Rightarrow> HederaVoting \<Rightarrow> error + HederaVoting receipt" where
  "HederaVoting_vote proposalId' support voter env s =
     require (exists (proposals s proposalId')) ''Proposal does not exist''
    (require (block_timestamp env \<le> deadline (proposals s proposalId'))
       ''Voting period has ended''
       (case count_vote support (proposals s proposalId') of
          Inl e \<Rightarrow> Inl e
        | Inr p \<Rightarrow>
            (let s1 = s\<lparr>proposals := (proposals s)(proposalId' := p)\<rparr>
             in Inr \<lparr>post = s1\<lparr>voters := (voters s1)(proposalId' :=
                                   voters s1 proposalId' @ [voter])\<rparr>,
                     emitted = [VoteCast proposalId' voter support],
                     returndata = []\<rparr>)))"

subsection \<open>Views\<close>

text \<open>
  \<open>getProposal\<close> returns the ten values of its \<open>returns\<close> clause, in that order; the
  last is \<open>isActiveNow\<close>.
\<close>

type_synonym ProposalView =
  "uint256 \<times> string \<times> string \<times> uint256 \<times> string \<times> address \<times> uint256 \<times> uint256 \<times> uint256 \<times> bool"

definition getProposal :: "uint256 \<Rightarrow> Env \<Rightarrow> 'a Ledger_scheme \<Rightarrow> error + ProposalView" where
  "getProposal proposalId' env s =
     (let p = proposals s proposalId' in
      require (exists p) ''Proposal does not exist''
        (let isActiveNow = (block_timestamp env \<le> deadline p)
         in Inr (proposalId p, parkName p, message p, parkSize p, chatTopicHistory p,
                 creator p, yesVotes p, noVotes p, deadline p, isActiveNow)))"

definition isProposalActive :: "uint256 \<Rightarrow> Env \<Rightarrow> FlowVoting \<Rightarrow> error + bool" where
  "isProposalActive proposalId' env s =
     (let p = proposals s proposalId' in
      require (exists p) ''Proposal does not exist''
        (Inr (block_timestamp env \<le> deadline p)))"

definition hasUserVoted :: "uint256 \<Rightarrow> address \<Rightarrow> FlowVoting \<Rightarrow> bool" where
  "hasUserVoted proposalId' user s = hasVoted s proposalId' user"

definition getVoters :: "uint256 \<Rightarrow> HederaVoting \<Rightarrow> address list" where
  "getVoters proposalId' s = voters s proposalId'"

definition getTotalProposals :: "'a Ledger_scheme \<Rightarrow> uint256" where
  "getTotalProposals s = proposalCount s"

subsection \<open>getActiveProposals (both contracts)\<close>

text \<open>
  The body of the first loop, on the pair \<open>(tempActive, activeCount)\<close>:
  \<^verbatim>\<open>
  if (proposals[i].exists && block.timestamp <= proposals[i].deadline) {
      tempActive[activeCount] = i;
      activeCount++;
  }
  \<close>
\<close>

definition scan_body ::
  "Env \<Rightarrow> 'a Ledger_scheme \<Rightarrow> uint256 \<Rightarrow> uint256 list \<times> uint256
     \<Rightarrow> error + uint256 list \<times> uint256" where
  "scan_body env s i st =
     (case st of (tempActive, activeCount) \<Rightarrow>
        if exists (proposals s i) \<and> block_timestamp env \<le> deadline (proposals s i) then
          (case array_set tempActive activeCount i of
             Inl e \<Rightarrow> Inl e
           | Inr tempActive' \<Rightarrow>
               (case checked_inc activeCount of
                  Inl e \<Rightarrow> Inl e
                | Inr activeCount' \<Rightarrow> Inr (tempActive', activeCount')))
        else Inr (tempActive, activeCount))"

text \<open>\<^verbatim>\<open>for (uint256 i = 1; i <= proposalCount; i++) { ... }\<close>, from \<open>i\<close> on.\<close>

function scan_loop ::
  "Env \<Rightarrow> 'a Ledger_scheme \<Rightarrow> uint256 \<Rightarrow> uint256 list \<times> uint256
     \<Rightarrow> error + uint256 list \<times> uint256" where
  "scan_loop env s i st =
     (if i \<le> proposalCount s then
        (case scan_body env s i st of
           Inl e \<Rightarrow> Inl e
         | Inr st' \<Rightarrow>
             (case checked_inc i of
                Inl e \<Rightarrow> Inl e
              | Inr i' \<Rightarrow> scan_loop env s i' st'))
      else Inr st)"
  by pat_completeness auto
termination
proof (relation "measure (\<lambda>(env, s, i, st). 2 ^ 256 - unat i)")
  show "wf (measure (\<lambda>(env :: Env, s :: 'a Ledger_scheme, i :: uint256,
               st :: uint256 list \<times> uint256). 2 ^ 256 - unat i))"
    by simp
next
  fix env :: Env and s :: "'a Ledger_scheme" and i i' :: uint256
    and st st' :: "uint256 list \<times> uint256"
  assume "checked_inc i = Inr i'"
  then have "unat i' = Suc (unat i)"
    by (simp add: checked_inc_Inr)
  moreover have "unat i' < 2 ^ 256"
    using unsigned_less [of i'] by simp
  ultimately show "((env, s, i', st'), (env, s, i, st))
      \<in> measure (\<lambda>(env, s, i, st). 2 ^ 256 - unat i)"
    by simp
qed

text \<open>
  \<^verbatim>\<open>for (uint256 j = 0; j < activeCount; j++) { activeProposals[j] = tempActive[j]; }\<close>,
  from \<open>j\<close> on.
\<close>

function copy_loop ::
  "uint256 list \<Rightarrow> uint256 \<Rightarrow> uint256 \<Rightarrow> uint256 list \<Rightarrow> error + uint256 list" where
  "copy_loop tempActive activeCount j activeProposals =
     (if j < activeCount then
        (case array_get tempActive j of
           Inl e \<Rightarrow> Inl e
         | Inr v \<Rightarrow>
             (case array_set activeProposals j v of
                Inl e \<Rightarrow> Inl e
              | Inr activeProposals' \<Rightarrow>
                  (case checked_inc j of
                     Inl e \<Rightarrow> Inl e
                   | Inr j' \<Rightarrow> copy_loop tempActive activeCount j' activeProposals')))
      else Inr activeProposals)"
  by pat_completeness auto
termination
proof (relation "measure (\<lambda>(tempActive, activeCount, j, activeProposals). 2 ^ 256 - unat j)")
  show "wf (measure (\<lambda>(tempActive :: uint256 list, activeCount :: uint256, j :: uint256,
               activeProposals :: uint256 list). 2 ^ 256 - unat j))"
    by simp
next
  fix tempActive activeProposals activeProposals' :: "uint256 list"
    and activeCount j j' :: uint256
  assume "checked_inc j = Inr j'"
  then have "unat j' = Suc (unat j)"
    by (simp add: checked_inc_Inr)
  moreover have "unat j' < 2 ^ 256"
    using unsigned_less [of j'] by simp
  ultimately show "((tempActive, activeCount, j', activeProposals'),
       (tempActive, activeCount, j, activeProposals))
      \<in> measure (\<lambda>(tempActive, activeCount, j, activeProposals). 2 ^ 256 - unat j)"
    by simp
qed

text \<open>
  \<^verbatim>\<open>
  uint256[] memory tempActive = new uint256[](proposalCount);
  uint256 activeCount = 0;
  for (...) { ... }
  uint256[] memory activeProposals = new uint256[](activeCount);
  for (...) { ... }
  return activeProposals;
  \<close>
\<close>

definition getActiveProposals :: "Env \<Rightarrow> 'a Ledger_scheme \<Rightarrow> error + uint256 list" where
  "getActiveProposals env s =
     (case new_array (proposalCount s) of
        Inl e \<Rightarrow> Inl e
      | Inr tempActive0 \<Rightarrow>
          (case scan_loop env s 1 (tempActive0, 0) of
             Inl e \<Rightarrow> Inl e
           | Inr (tempActive, activeCount) \<Rightarrow>
               (case new_array activeCount of
                  Inl e \<Rightarrow> Inl e
                | Inr activeProposals \<Rightarrow>
                    copy_loop tempActive activeCount 0 activeProposals)))"

subsection \<open>Transactions\<close>

text \<open>
  The calls that change state, and a chain of them: each transaction has its own
  environment; one that reverts leaves the state and the log of events as they were.
\<close>

datatype FlowVoting_call =
  F_createProposal string string uint256 string uint256
  | F_vote uint256 bool

datatype HederaVoting_call =
  H_createProposal string string uint256 string uint256
  | H_vote uint256 bool address

fun FlowVoting_exec :: "Env \<Rightarrow> FlowVoting_call \<Rightarrow> FlowVoting \<Rightarrow> error + FlowVoting receipt" where
  "FlowVoting_exec env (F_createProposal n m sz t d) s = createProposal n m sz t d env s"
| "FlowVoting_exec env (F_vote i b) s = FlowVoting_vote i b env s"

fun HederaVoting_exec ::
  "Env \<Rightarrow> HederaVoting_call \<Rightarrow> HederaVoting \<Rightarrow> error + HederaVoting receipt" where
  "HederaVoting_exec env (H_createProposal n m sz t d) s = createProposal n m sz t d env s"
| "HederaVoting_exec env (H_vote i b v) s = HederaVoting_vote i b v env s"

definition commit :: "'s \<times> event list \<Rightarrow> error + 's receipt \<Rightarrow> 's \<times> event list" where
  "commit st r =
     (case r of
        Inl e \<Rightarrow> st
      | Inr rc \<Rightarrow> (post rc, snd st @ emitted rc))"

fun FlowVoting_run ::
  "(Env \<times> FlowVoting_call) list \<Rightarrow> FlowVoting \<times> event list \<Rightarrow> FlowVoting \<times> event list" where
  "FlowVoting_run [] st = st"
| "FlowVoting_run ((env, c) # txs) st =
     FlowVoting_run txs (commit st (FlowVoting_exec env c (fst st)))"

fun HederaVoting_run ::
  "(Env \<times> HederaVoting_call) list \<Rightarrow> HederaVoting \<times> event list
     \<Rightarrow> HederaVoting \<times> event list" where
  "HederaVoting_run [] st = st"
| "HederaVoting_run ((env, c) # txs) st =
     HederaVoting_run txs (commit st (HederaVoting_exec env c (fst st)))"

subsection \<open>A sequence of createProposal calls\<close>

text \<open>
  The calls of a list, one after the other, each on the state the one before left. The
  result is the receipts of the calls and the last state, when every call succeeds, and
  the first error otherwise. A call is its environment and its five arguments.
\<close>

fun createProposal_seq ::
  "(Env \<times> string \<times> string \<times> uint256 \<times> string \<times> uint256) list \<Rightarrow> 'a Ledger_scheme
     \<Rightarrow> error + 'a Ledger_scheme receipt list \<times> 'a Ledger_scheme" where
  "createProposal_seq [] s = Inr ([], s)"
| "createProposal_seq ((env, n, m, sz, t, d) # cs) s =
     (case createProposal n m sz t d env s of
        Inl e \<Rightarrow> Inl e
      | Inr r \<Rightarrow>
          (case createProposal_seq cs (post r) of
             Inl e \<Rightarrow> Inl e
           | Inr (rs, s') \<Rightarrow> Inr (r # rs, s')))"

text \<open>
  What the call \<open>c\<close> stores under the id \<open>i\<close>, and the event it emits, as
  \<open>createProposal\<close> builds them.
\<close>

definition stored :: "uint256 \<Rightarrow> Env \<times> string \<times> string \<times> uint256 \<times> string \<times> uint256 \<Rightarrow> Proposal" where
  "stored i c = (case c of (env, n, m, sz, t, d) \<Rightarrow>
     \<lparr>proposalId = i, parkName = n, message = m, parkSize = sz, chatTopicHistory = t,
      creator = msg_sender env, yesVotes = 0, noVotes = 0, deadline = d, exists = True\<rparr>)"

definition announced :: "uint256 \<Rightarrow> Env \<times> string \<times> string \<times> uint256 \<times> string \<times> uint256 \<Rightarrow> event" where
  "announced i c = (case c of (env, n, m, sz, t, d) \<Rightarrow>
     ProposalCreated i n m sz t (msg_sender env) d)"

subsection \<open>Reading the log of events\<close>

text \<open>
  The identities of the \<open>VoteCast\<close> events of a log for the proposal \<open>i\<close>, in the
  order of the log: one for each vote that was accepted.
\<close>

fun cast_on :: "uint256 \<Rightarrow> event \<Rightarrow> address list" where
  "cast_on i (VoteCast j a b) = (if j = i then [a] else [])"
| "cast_on i (ProposalCreated j n m sz t c d) = []"

definition voters_cast :: "uint256 \<Rightarrow> event list \<Rightarrow> address list" where
  "voters_cast i evs = concat (map (cast_on i) evs)"

subsection \<open>Invariants of the two contracts\<close>

text \<open>
  What holds of a state of \<open>HederaVoting\<close> and the events emitted so far: a proposal
  that exists has an id up to the counter and holds its own id; one that does not exist
  has no voters; the voters of a proposal are the identities of its \<open>VoteCast\<close> events;
  its two counts add up to their number.
\<close>

definition Hedera_inv :: "HederaVoting \<times> event list \<Rightarrow> bool" where
  "Hedera_inv st =
     (\<forall>i. (exists (proposals (fst st) i) \<longrightarrow> unat i \<le> unat (proposalCount (fst st)))
        \<and> (\<not> exists (proposals (fst st) i) \<longrightarrow> voters (fst st) i = [])
        \<and> voters (fst st) i = voters_cast i (snd st)
        \<and> unat (yesVotes (proposals (fst st) i)) + unat (noVotes (proposals (fst st) i))
            = length (voters (fst st) i)
        \<and> (exists (proposals (fst st) i) \<longrightarrow> proposalId (proposals (fst st) i) = i))"

text \<open>
  The same for \<open>FlowVoting\<close>, whose \<open>hasVoted\<close> holds exactly the identities of the
  \<open>VoteCast\<close> events, each at most once.
\<close>

definition Flow_inv :: "FlowVoting \<times> event list \<Rightarrow> bool" where
  "Flow_inv st =
     (\<forall>i. (exists (proposals (fst st) i) \<longrightarrow> unat i \<le> unat (proposalCount (fst st)))
        \<and> (\<not> exists (proposals (fst st) i) \<longrightarrow> voters_cast i (snd st) = [])
        \<and> (\<forall>a. hasVoted (fst st) i a \<longleftrightarrow> a \<in> set (voters_cast i (snd st)))
        \<and> distinct (voters_cast i (snd st))
        \<and> unat (yesVotes (proposals (fst st) i)) + unat (noVotes (proposals (fst st) i))
            = length (voters_cast i (snd st)))"

subsection \<open>The ids that getActiveProposals is to return\<close>

text \<open>
  A proposal is active when it exists and the current time is at most its deadline.
  \<open>ids_from i n\<close> is the list of the ids \<open>i, i + 1, \<dots>, n\<close> and \<open>ids_upto n\<close> the list
  \<open>1, \<dots>, n\<close>.
\<close>

definition is_active :: "Env \<Rightarrow> 'a Ledger_scheme \<Rightarrow> uint256 \<Rightarrow> bool" where
  "is_active env s i =
     (exists (proposals s i) \<and> block_timestamp env \<le> deadline (proposals s i))"

definition ids_from :: "uint256 \<Rightarrow> uint256 \<Rightarrow> uint256 list" where
  "ids_from i n = map of_nat [unat i..<Suc (unat n)]"

definition ids_upto :: "uint256 \<Rightarrow> uint256 list" where
  "ids_upto n = map of_nat [1..<Suc (unat n)]"

subsection \<open>The listing endpoint of the server\<close>

text \<open>
  \<open>GET /api/proposals\<close> in \<open>server.js\<close>:
  \<^verbatim>\<open>
  const totalProposals = 20;
  const proposals = [];
  for (let id = 1; id <= totalProposals; id++) {
    try {
      const result = await query("getProposal", id);
      ...
      const isActive = result.getBool(9);
      if (isActive) { proposals.push({ id: proposalId.toNumber(), ... }); }
    } catch (err) { continue; }
  }
  res.json({ success: true, proposals });
  \<close>
  Each query is a call of \<open>getProposal\<close> of the contract, at the time and on the state
  of the ledger of that moment: \<open>world id\<close> is the environment and the state that the
  query for \<open>id\<close> meets, or \<open>None\<close> when the query does not reach the contract. A
  query that fails, for that reason or because the call reverts, throws; the error is
  caught and the loop goes on. An entry of the response is built from the ten values the
  query returned and from nothing else, so it is represented by these values;
  \<open>view_id\<close> is the \<open>id\<close> of the entry. The texts built for display (\<open>title\<close>,
  \<open>location\<close>, \<open>status\<close>, \<open>timeLeft\<close>), the conversion of the numbers and the set-up
  of the client are left out.
\<close>

definition totalProposals :: nat where
  "totalProposals = 20"

definition view_id :: "ProposalView \<Rightarrow> uint256" where
  "view_id r = fst r"

definition view_isActive :: "ProposalView \<Rightarrow> bool" where
  "view_isActive r = snd (snd (snd (snd (snd (snd (snd (snd (snd r))))))))"

definition contract_query ::
  "(nat \<Rightarrow> (Env \<times> 'a Ledger_scheme) option) \<Rightarrow> nat \<Rightarrow> ProposalView option" where
  "contract_query world id' =
     (case world id' of
        None \<Rightarrow> None
      | Some (env, s) \<Rightarrow>
          (case getProposal (of_nat id') env s of
             Inl err \<Rightarrow> None
           | Inr result \<Rightarrow> Some result))"

function proposals_loop ::
  "(nat \<Rightarrow> (Env \<times> 'a Ledger_scheme) option) \<Rightarrow> nat \<Rightarrow> ProposalView list
     \<Rightarrow> ProposalView list" where
  "proposals_loop world id' proposals' =
     (if id' \<le> totalProposals then
        proposals_loop world (id' + 1)
          (case contract_query world id' of
             None \<Rightarrow> proposals'
           | Some result \<Rightarrow>
               if view_isActive result then proposals' @ [result] else proposals')
      else proposals')"
  by pat_completeness auto
termination
  by (relation "measure (\<lambda>(world, id', proposals'). Suc totalProposals - id')") auto

definition api_proposals ::
  "(nat \<Rightarrow> (Env \<times> 'a Ledger_scheme) option) \<Rightarrow> ProposalView list" where
  "api_proposals world = proposals_loop world 1 []"

text \<open>
  What the query for \<open>k\<close> adds to the response, and whether the query for the id
  \<open>i\<close> is answered with an active proposal.
\<close>

definition listed ::
  "(nat \<Rightarrow> (Env \<times> 'a Ledger_scheme) option) \<Rightarrow> nat \<Rightarrow> ProposalView list" where
  "listed world k =
     (case contract_query world k of
        None \<Rightarrow> []
      | Some result \<Rightarrow> if view_isActive result then [result] else [])"

definition answered ::
  "(nat \<Rightarrow> (Env \<times> 'a Ledger_scheme) option) \<Rightarrow> uint256 \<Rightarrow> bool" where
  "answered world i =
     (case world (unat i) of
        None \<Rightarrow> False
      | Some (env, s) \<Rightarrow> is_active env s i)"

subsection \<open>Example states\<close>

text \<open>
  The scenario of the scripts: the proposal of \<open>callContractFunctions.js\<close> (Aoma Park,
  size 120), created at time 0 with a deadline of 3600 by the account 7.
\<close>

definition env_at :: "uint256 \<Rightarrow> address \<Rightarrow> Env" where
  "env_at t a = \<lparr>block_timestamp = t, msg_sender = a\<rparr>"

definition Aoma_Park :: "address \<Rightarrow> Proposal" where
  "Aoma_Park c =
     \<lparr>proposalId = 1, parkName = ''Aoma Park'', message = ''Add no trees'', parkSize = 120,
      chatTopicHistory = ''Initial proposal created'', creator = c, yesVotes = 0,
      noVotes = 0, deadline = 3600, exists = True\<rparr>"

definition Hedera_created :: HederaVoting where
  "Hedera_created =
     \<lparr>proposals = (\<lambda>i. zero_Proposal)(1 := Aoma_Park 7), proposalCount = 1,
      voters = (\<lambda>i. [])\<rparr>"

definition Flow_voted :: FlowVoting where
  "Flow_voted =
     \<lparr>proposals = (\<lambda>i. zero_Proposal)(1 := (Aoma_Park 7)\<lparr>yesVotes := 1\<rparr>),
      proposalCount = 1,
      hasVoted = (\<lambda>i a. False)(1 := (\<lambda>a. False)(7 := True))\<rparr>"

text \<open>
  The state after the proposal of the scenario has received \<open>k\<close> yes votes that name
  the voter 10.
\<close>

definition Hedera_voted :: "nat \<Rightarrow> HederaVoting" where
  "Hedera_voted k =
     \<lparr>proposals = (\<lambda>i. zero_Proposal)(1 := (Aoma_Park 7)\<lparr>yesVotes := of_nat k\<rparr>),
      proposalCount = 1,
      voters = (\<lambda>i. [])(1 := replicate k 10)\<rparr>"

text \<open>
  The state after \<open>k\<close> calls of \<open>createProposal\<close> with the arguments of the scenario.
\<close>

definition Hedera_filled :: "nat \<Rightarrow> HederaVoting" where
  "Hedera_filled k =
     \<lparr>proposals = (\<lambda>i. if 0 < unat i \<and> unat i \<le> k
                        then (Aoma_Park 7)\<lparr>proposalId := i\<rparr> else zero_Proposal),
      proposalCount = of_nat k,
      voters = (\<lambda>i. [])\<rparr>"

text \<open>
  Three proposals with the deadlines 3600, 100 and 5000, created at time 0 by the
  accounts 7, 8 and 9.
\<close>

definition three_proposals :: HederaVoting where
  "three_proposals =
     \<lparr>proposals = (\<lambda>i. zero_Proposal)
        (1 := Aoma_Park 7,
         2 := (Aoma_Park 8)\<lparr>proposalId := 2, deadline := 100\<rparr>,
         3 := (Aoma_Park 9)\<lparr>proposalId := 3, deadline := 5000\<rparr>),
      proposalCount = 3, voters = (\<lambda>i. [])\<rparr>"

declare scan_loop.simps [simp del] copy_loop.simps [simp del] proposals_loop.simps [simp del]

section \<open>Properties\<close>

subsection \<open>Basic facts about the calls\<close>

lemma require_Inr: "require c msg rest = Inr x \<longleftrightarrow> c \<and> rest = Inr x"
  by (simp add: require_def)

lemma require_Inl: "require c msg rest = Inl e \<longleftrightarrow> (if c then rest = Inl e else e = Error msg)"
  by (auto simp: require_def)

lemma checked_inc_Inr_iff: "checked_inc x = Inr y \<longleftrightarrow> x \<noteq> - 1 \<and> y = x + 1"
  by (auto simp: checked_inc_def)

lemma checked_inc_Inl_iff: "checked_inc x = Inl e \<longleftrightarrow> x = - 1 \<and> e = Panic 17"
  by (auto simp: checked_inc_def)

lemma createProposal_Inr:
  "createProposal n m sz t d env s = Inr r \<longleftrightarrow>
     block_timestamp env < d \<and> proposalCount s \<noteq> - 1 \<and>
     r = \<lparr>post = s\<lparr>proposalCount := proposalCount s + 1,
                    proposals := (proposals s)(proposalCount s + 1 :=
                      \<lparr>proposalId = proposalCount s + 1, parkName = n, message = m,
                       parkSize = sz, chatTopicHistory = t, creator = msg_sender env,
                       yesVotes = 0, noVotes = 0, deadline = d, exists = True\<rparr>)\<rparr>,
           emitted = [ProposalCreated (proposalCount s + 1) n m sz t (msg_sender env) d],
           returndata = []\<rparr>"
  by (auto simp: createProposal_def require_def checked_inc_def)

lemma FlowVoting_vote_Inr:
  "FlowVoting_vote pid support env f = Inr r \<longleftrightarrow>
     exists (proposals f pid) \<and> block_timestamp env \<le> deadline (proposals f pid) \<and>
     \<not> hasVoted f pid (msg_sender env) \<and>
     (if support then yesVotes (proposals f pid) else noVotes (proposals f pid)) \<noteq> - 1 \<and>
     r = \<lparr>post = f\<lparr>hasVoted := (hasVoted f)(pid := (hasVoted f pid)(msg_sender env := True)),
                    proposals := (proposals f)(pid :=
                      (if support
                       then (proposals f pid)\<lparr>yesVotes := yesVotes (proposals f pid) + 1\<rparr>
                       else (proposals f pid)\<lparr>noVotes := noVotes (proposals f pid) + 1\<rparr>))\<rparr>,
           emitted = [VoteCast pid (msg_sender env) support], returndata = []\<rparr>"
  by (auto simp: FlowVoting_vote_def require_def count_vote_def checked_inc_def Let_def)

lemma HederaVoting_vote_Inr:
  "HederaVoting_vote pid support v env h = Inr r \<longleftrightarrow>
     exists (proposals h pid) \<and> block_timestamp env \<le> deadline (proposals h pid) \<and>
     (if support then yesVotes (proposals h pid) else noVotes (proposals h pid)) \<noteq> - 1 \<and>
     r = \<lparr>post = h\<lparr>proposals := (proposals h)(pid :=
                      (if support
                       then (proposals h pid)\<lparr>yesVotes := yesVotes (proposals h pid) + 1\<rparr>
                       else (proposals h pid)\<lparr>noVotes := noVotes (proposals h pid) + 1\<rparr>)),
                    voters := (voters h)(pid := voters h pid @ [v])\<rparr>,
           emitted = [VoteCast pid v support], returndata = []\<rparr>"
  by (auto simp: HederaVoting_vote_def require_def count_vote_def checked_inc_def Let_def)

lemma getProposal_eq:
  "getProposal j env s =
     (if exists (proposals s j)
      then Inr (proposalId (proposals s j), parkName (proposals s j), message (proposals s j),
                parkSize (proposals s j), chatTopicHistory (proposals s j),
                creator (proposals s j), yesVotes (proposals s j), noVotes (proposals s j),
                deadline (proposals s j), block_timestamp env \<le> deadline (proposals s j))
      else Inl ProposalNotFound)"
  by (simp add: getProposal_def require_def Let_def ProposalNotFound_def)

lemma createProposal_succeeds:
  "block_timestamp env < d \<Longrightarrow> proposalCount s \<noteq> - 1
     \<Longrightarrow> \<exists>r. createProposal n m sz t d env s = Inr r"
  by (simp add: createProposal_Inr)

text \<open>The example states are the ones the calls of the scenario lead to.\<close>

lemma Hedera_created_reached:
  "HederaVoting_run [(env_at 0 7, H_createProposal ''Aoma Park'' ''Add no trees'' 120
       ''Initial proposal created'' 3600)] (HederaVoting_init, [])
   = (Hedera_created, [ProposalCreated 1 ''Aoma Park'' ''Add no trees'' 120
       ''Initial proposal created'' 7 3600])"
  by (simp add: Hedera_created_def HederaVoting_init_def env_at_def createProposal_def
      require_def checked_inc_def commit_def Aoma_Park_def)

lemma Flow_voted_reached:
  "FlowVoting_run [(env_at 0 7, F_createProposal ''Aoma Park'' ''Add no trees'' 120
       ''Initial proposal created'' 3600), (env_at 50 7, F_vote 1 True)] (FlowVoting_init, [])
   = (Flow_voted, [ProposalCreated 1 ''Aoma Park'' ''Add no trees'' 120
       ''Initial proposal created'' 7 3600, VoteCast 1 7 True])"
  by (simp add: Flow_voted_def FlowVoting_init_def env_at_def createProposal_def
      require_def checked_inc_def commit_def Aoma_Park_def FlowVoting_vote_def count_vote_def)

subsection \<open>createProposal with a deadline that is not in the future\<close>

text \<open>
  C6. A call of \<open>createProposal\<close> whose deadline is less than or equal to the current
  time reverts with the message of \<open>InvalidDeadline\<close>, whatever the state. The call
  changes nothing: the state and the log are as before, so a chain of transactions that
  goes on after it runs as if the call had not been made (the counter is the same, the
  next creation gets the id it would have got, and no record was stored).
\<close>

theorem createProposal_deadline_not_future:
  assumes "deadline' \<le> block_timestamp env"
  shows "createProposal n m sz t deadline' env s = Inl InvalidDeadline
    \<and> commit (s, log) (createProposal n m sz t deadline' env s) = (s, log)
    \<and> FlowVoting_run ((env, F_createProposal n m sz t deadline') # ftxs) (f, log)
        = FlowVoting_run ftxs (f, log)
    \<and> HederaVoting_run ((env, H_createProposal n m sz t deadline') # htxs) (h, log)
        = HederaVoting_run htxs (h, log)"
proof -
  from assms have nf: "\<not> block_timestamp env < deadline'"
    by simp
  have rej: "createProposal n m sz t deadline' env s' = Inl InvalidDeadline" for s' :: "'b Ledger_scheme"
    using nf by (simp add: createProposal_def require_def InvalidDeadline_def)
  show ?thesis
    by (simp add: rej commit_def)
qed

theorem createProposal_deadline_not_future_witness:
  "(5 :: uint256) \<le> block_timestamp \<lparr>block_timestamp = 10, msg_sender = 1\<rparr>
   \<and> createProposal ''Aoma Park'' ''Add no trees'' 120 ''topic'' 5
        \<lparr>block_timestamp = 10, msg_sender = 1\<rparr> HederaVoting_init = Inl InvalidDeadline
   \<and> commit (HederaVoting_init, [])
        (createProposal ''Aoma Park'' ''Add no trees'' 120 ''topic'' 5
           \<lparr>block_timestamp = 10, msg_sender = 1\<rparr> HederaVoting_init)
       = (HederaVoting_init, [])
   \<and> HederaVoting_run
        [(\<lparr>block_timestamp = 10, msg_sender = 1\<rparr>,
          H_createProposal ''Aoma Park'' ''Add no trees'' 120 ''topic'' 5),
         (\<lparr>block_timestamp = 10, msg_sender = 1\<rparr>,
          H_createProposal ''Aoma Park'' ''Add no trees'' 120 ''topic'' 50)]
        (HederaVoting_init, [])
       = HederaVoting_run
        [(\<lparr>block_timestamp = 10, msg_sender = 1\<rparr>,
          H_createProposal ''Aoma Park'' ''Add no trees'' 120 ''topic'' 50)]
        (HederaVoting_init, [])"
proof -
  have h: "(5 :: uint256) \<le> block_timestamp \<lparr>block_timestamp = 10, msg_sender = 1\<rparr>"
    by simp
  from createProposal_deadline_not_future [OF h, where n = "''Aoma Park''"
      and m = "''Add no trees''" and sz = 120 and t = "''topic''" and s = HederaVoting_init
      and log = "[]" and f = FlowVoting_init and ftxs = "[]" and h = HederaVoting_init
      and htxs = "[(\<lparr>block_timestamp = 10, msg_sender = 1\<rparr>,
          H_createProposal ''Aoma Park'' ''Add no trees'' 120 ''topic'' 50)]"]
  show ?thesis
    using h by blast
qed

subsection \<open>The order of the checks of vote\<close>

text \<open>
  C1. In every state, \<open>vote\<close> reverts with the message of \<open>ProposalNotFound\<close> exactly when
  the proposal does not exist; with that of \<open>VotingClosed\<close> exactly when it exists and the
  current time is strictly greater than its deadline (so a vote at a time equal to the
  deadline passes this check); and, in \<open>FlowVoting\<close>, with that of \<open>DuplicateVote\<close> exactly
  when it exists, the time is at most the deadline and the sender has already voted. Each
  failure is reported only when the checks before it have passed: that is their order.
\<close>

theorem vote_checks_in_order:
  "(FlowVoting_vote pid support env f = Inl ProposalNotFound
      \<longleftrightarrow> \<not> exists (proposals f pid))
 \<and> (FlowVoting_vote pid support env f = Inl VotingClosed
      \<longleftrightarrow> exists (proposals f pid) \<and> deadline (proposals f pid) < block_timestamp env)
 \<and> (FlowVoting_vote pid support env f = Inl DuplicateVote
      \<longleftrightarrow> exists (proposals f pid) \<and> block_timestamp env \<le> deadline (proposals f pid)
          \<and> hasVoted f pid (msg_sender env))
 \<and> (HederaVoting_vote pid support v env h = Inl ProposalNotFound
      \<longleftrightarrow> \<not> exists (proposals h pid))
 \<and> (HederaVoting_vote pid support v env h = Inl VotingClosed
      \<longleftrightarrow> exists (proposals h pid) \<and> deadline (proposals h pid) < block_timestamp env)"
  by (auto simp: FlowVoting_vote_def HederaVoting_vote_def require_def ProposalNotFound_def
      VotingClosed_def DuplicateVote_def Let_def count_vote_def checked_inc_def)

theorem vote_checks_in_order_witness:
  "FlowVoting_vote 2 True (env_at 50 7) Flow_voted = Inl ProposalNotFound
 \<and> FlowVoting_vote 1 True (env_at 3601 7) Flow_voted = Inl VotingClosed
 \<and> FlowVoting_vote 1 True (env_at 3600 7) Flow_voted = Inl DuplicateVote
 \<and> FlowVoting_vote 1 True (env_at 3600 8) Flow_voted \<noteq> Inl VotingClosed
 \<and> HederaVoting_vote 2 True 10 (env_at 50 7) Hedera_created = Inl ProposalNotFound
 \<and> HederaVoting_vote 1 True 10 (env_at 3601 7) Hedera_created = Inl VotingClosed
 \<and> HederaVoting_vote 1 True 10 (env_at 3600 7) Hedera_created \<noteq> Inl VotingClosed"
  using vote_checks_in_order [of 2 True "env_at 50 7" Flow_voted 10 Hedera_created]
    vote_checks_in_order [of 1 True "env_at 3601 7" Flow_voted 10 Hedera_created]
    vote_checks_in_order [of 1 True "env_at 3600 7" Flow_voted 10 Hedera_created]
    vote_checks_in_order [of 1 True "env_at 3600 8" Flow_voted 10 Hedera_created]
  by (simp add: Flow_voted_def Hedera_created_def Aoma_Park_def env_at_def zero_Proposal_def)

subsection \<open>What a vote changes\<close>

text \<open>
  C8. After a successful \<open>vote(id, support, v)\<close>, in either contract, \<open>getProposal(id)\<close>
  returns the values it returned before, but for the counter of the side voted for, which
  is greater by exactly one (without wrapping), the other counter being the same; the
  proposal still exists, every other proposal is as it was, and so is the count of
  proposals.
\<close>

theorem vote_changes_one_counter:
  "(FlowVoting_vote pid support env f = Inr rf \<longrightarrow>
      getProposal pid env' (post rf) =
        Inr (proposalId (proposals f pid), parkName (proposals f pid),
             message (proposals f pid), parkSize (proposals f pid),
             chatTopicHistory (proposals f pid), creator (proposals f pid),
             yesVotes (proposals f pid) + (if support then 1 else 0),
             noVotes (proposals f pid) + (if support then 0 else 1),
             deadline (proposals f pid),
             block_timestamp env' \<le> deadline (proposals f pid))
    \<and> unat (yesVotes (proposals (post rf) pid))
        = unat (yesVotes (proposals f pid)) + (if support then 1 else 0)
    \<and> unat (noVotes (proposals (post rf) pid))
        = unat (noVotes (proposals f pid)) + (if support then 0 else 1)
    \<and> exists (proposals (post rf) pid) = exists (proposals f pid)
    \<and> (\<forall>j. j \<noteq> pid \<longrightarrow> proposals (post rf) j = proposals f j
              \<and> getProposal j env' (post rf) = getProposal j env' f)
    \<and> proposalCount (post rf) = proposalCount f)
 \<and> (HederaVoting_vote pid support v env h = Inr rh \<longrightarrow>
      getProposal pid env' (post rh) =
        Inr (proposalId (proposals h pid), parkName (proposals h pid),
             message (proposals h pid), parkSize (proposals h pid),
             chatTopicHistory (proposals h pid), creator (proposals h pid),
             yesVotes (proposals h pid) + (if support then 1 else 0),
             noVotes (proposals h pid) + (if support then 0 else 1),
             deadline (proposals h pid),
             block_timestamp env' \<le> deadline (proposals h pid))
    \<and> unat (yesVotes (proposals (post rh) pid))
        = unat (yesVotes (proposals h pid)) + (if support then 1 else 0)
    \<and> unat (noVotes (proposals (post rh) pid))
        = unat (noVotes (proposals h pid)) + (if support then 0 else 1)
    \<and> exists (proposals (post rh) pid) = exists (proposals h pid)
    \<and> (\<forall>j. j \<noteq> pid \<longrightarrow> proposals (post rh) j = proposals h j
              \<and> getProposal j env' (post rh) = getProposal j env' h)
    \<and> proposalCount (post rh) = proposalCount h)"
  by (auto simp: FlowVoting_vote_Inr HederaVoting_vote_Inr getProposal_eq unat_inc)

theorem vote_changes_one_counter_witness:
  "(\<exists>rh. HederaVoting_vote 1 True 10 (env_at 50 9) Hedera_created = Inr rh
      \<and> getProposal 1 (env_at 60 9) (post rh)
         = Inr (1, ''Aoma Park'', ''Add no trees'', 120, ''Initial proposal created'', 7,
                1, 0, 3600, True)
      \<and> proposals (post rh) 2 = proposals Hedera_created 2)
 \<and> (\<exists>rf. FlowVoting_vote 1 False (env_at 50 9) Flow_voted = Inr rf
      \<and> getProposal 1 (env_at 60 9) (post rf)
         = Inr (1, ''Aoma Park'', ''Add no trees'', 120, ''Initial proposal created'', 7,
                1, 1, 3600, True))"
proof -
  obtain rh where rh: "HederaVoting_vote 1 True 10 (env_at 50 9) Hedera_created = Inr rh"
    by (simp add: HederaVoting_vote_Inr Hedera_created_def Aoma_Park_def env_at_def)
  obtain rf where rf: "FlowVoting_vote 1 False (env_at 50 9) Flow_voted = Inr rf"
    by (simp add: FlowVoting_vote_Inr Flow_voted_def Aoma_Park_def env_at_def)
  have "getProposal 1 (env_at 60 9) (post rh)
       = Inr (1, ''Aoma Park'', ''Add no trees'', 120, ''Initial proposal created'', 7,
              1, 0, 3600, True)
     \<and> proposals (post rh) 2 = proposals Hedera_created 2"
    using vote_changes_one_counter [where pid = 1 and support = True and v = 10
        and env = "env_at 50 9" and h = Hedera_created and rh = rh and env' = "env_at 60 9"] rh
    by (simp add: Hedera_created_def Aoma_Park_def env_at_def)
  moreover have "getProposal 1 (env_at 60 9) (post rf)
       = Inr (1, ''Aoma Park'', ''Add no trees'', 120, ''Initial proposal created'', 7,
              1, 1, 3600, True)"
    using vote_changes_one_counter [where pid = 1 and support = False
        and env = "env_at 50 9" and f = Flow_voted and rf = rf and env' = "env_at 60 9"] rf
    by (simp add: Flow_voted_def Aoma_Park_def env_at_def)
  ultimately show ?thesis
    using rh rf by blast
qed

subsection \<open>Reading a proposal back\<close>

text \<open>
  C9. When \<open>createProposal(title, description, size, discussionRef, deadline)\<close> succeeds,
  its deadline is strictly greater than the time of the call, the id it allocates is the
  new value of the counter, and \<open>getProposal\<close> of that id, called on the resulting state
  at the same time, returns the id, the five values given, the caller as the creator, both
  counts zero and \<open>active = true\<close>.
\<close>

theorem getProposal_after_createProposal:
  assumes "createProposal n m sz t d env s = Inr r"
    and "block_timestamp env' = block_timestamp env"
  shows "block_timestamp env < d
    \<and> proposalCount (post r) = proposalCount s + 1
    \<and> unat (proposalCount (post r)) = Suc (unat (proposalCount s))
    \<and> getProposal (proposalCount (post r)) env' (post r)
        = Inr (proposalCount (post r), n, m, sz, t, msg_sender env, 0, 0, d, True)"
  using assms by (auto simp: createProposal_Inr getProposal_eq unat_inc)

theorem getProposal_after_createProposal_witness:
  "\<exists>r. createProposal ''Aoma Park'' ''Add no trees'' 120 ''Initial proposal created'' 3600
         (env_at 0 7) HederaVoting_init = Inr r
     \<and> getProposal 1 (env_at 0 9) (post r)
        = Inr (1, ''Aoma Park'', ''Add no trees'', 120, ''Initial proposal created'', 7,
               0, 0, 3600, True)"
proof -
  obtain r where r: "createProposal ''Aoma Park'' ''Add no trees'' 120
      ''Initial proposal created'' 3600 (env_at 0 7) HederaVoting_init = Inr r"
    by (simp add: createProposal_Inr env_at_def HederaVoting_init_def)
  have t: "block_timestamp (env_at 0 9) = block_timestamp (env_at 0 7)"
    by (simp add: env_at_def)
  from getProposal_after_createProposal [OF r t] r
  show ?thesis
    by (auto simp: HederaVoting_init_def env_at_def)
qed

subsection \<open>The ids that createProposal allocates\<close>

lemma createProposal_seq_frame:
  "createProposal_seq cs s = Inr (rs, s') \<Longrightarrow>
     unat (proposalCount s') = unat (proposalCount s) + length cs
     \<and> (\<forall>j. unat j \<le> unat (proposalCount s) \<longrightarrow> proposals s' j = proposals s j)"
proof (induction cs arbitrary: s rs s')
  case Nil
  then show ?case by simp
next
  case (Cons c cs)
  obtain env n m sz t d where c: "c = (env, n, m, sz, t, d)"
    by (cases c) auto
  from Cons.prems c obtain r rs0 where r: "createProposal n m sz t d env s = Inr r"
    and rest: "createProposal_seq cs (post r) = Inr (rs0, s')"
    by (auto split: sum.splits)
  from r have cnt: "unat (proposalCount (post r)) = Suc (unat (proposalCount s))"
    and pr: "proposals (post r) = (proposals s)(proposalCount (post r) := stored (proposalCount (post r)) c)"
    by (auto simp: createProposal_Inr unat_inc stored_def c)
  from Cons.IH [OF rest] have ih1: "unat (proposalCount s') = unat (proposalCount (post r)) + length cs"
    and ih2: "\<And>j. unat j \<le> unat (proposalCount (post r)) \<Longrightarrow> proposals s' j = proposals (post r) j"
    by auto
  show ?case
  proof (intro conjI allI impI)
    show "unat (proposalCount s') = unat (proposalCount s) + length (c # cs)"
      using ih1 cnt by simp
  next
    fix j :: uint256
    assume j: "unat j \<le> unat (proposalCount s)"
    then have "j \<noteq> proposalCount (post r)" using cnt by auto
    with ih2 [of j] j cnt pr show "proposals s' j = proposals s j" by simp
  qed
qed

lemma createProposal_seq_ids:
  "createProposal_seq cs s = Inr (rs, s') \<Longrightarrow>
     length rs = length cs
     \<and> (\<forall>k<length cs.
           unat (proposalCount (post (rs ! k))) = unat (proposalCount s) + Suc k
         \<and> emitted (rs ! k) = [announced (proposalCount (post (rs ! k))) (cs ! k)]
         \<and> returndata (rs ! k) = []
         \<and> proposals s' (proposalCount (post (rs ! k)))
             = stored (proposalCount (post (rs ! k))) (cs ! k))"
proof (induction cs arbitrary: s rs s')
  case Nil
  then show ?case by auto
next
  case (Cons c cs)
  obtain env n m sz t d where c: "c = (env, n, m, sz, t, d)"
    by (cases c) auto
  from Cons.prems c obtain r rs0 where r: "createProposal n m sz t d env s = Inr r"
    and rest: "createProposal_seq cs (post r) = Inr (rs0, s')" and rs: "rs = r # rs0"
    by (auto split: sum.splits)
  from r have cnt: "unat (proposalCount (post r)) = Suc (unat (proposalCount s))"
    and pr: "proposals (post r) (proposalCount (post r)) = stored (proposalCount (post r)) c"
    and em: "emitted r = [announced (proposalCount (post r)) c]" and rd: "returndata r = []"
    by (auto simp: createProposal_Inr unat_inc stored_def announced_def c)
  from createProposal_seq_frame [OF rest]
  have keep: "proposals s' (proposalCount (post r)) = proposals (post r) (proposalCount (post r))"
    by simp
  from Cons.IH [OF rest] have len: "length rs0 = length cs"
    and ih: "\<And>k. k < length cs \<Longrightarrow>
           unat (proposalCount (post (rs0 ! k))) = unat (proposalCount (post r)) + Suc k
         \<and> emitted (rs0 ! k) = [announced (proposalCount (post (rs0 ! k))) (cs ! k)]
         \<and> returndata (rs0 ! k) = []
         \<and> proposals s' (proposalCount (post (rs0 ! k)))
             = stored (proposalCount (post (rs0 ! k))) (cs ! k)"
    by auto
  have "unat (proposalCount (post (rs ! k))) = unat (proposalCount s) + Suc k
         \<and> emitted (rs ! k) = [announced (proposalCount (post (rs ! k))) ((c # cs) ! k)]
         \<and> returndata (rs ! k) = []
         \<and> proposals s' (proposalCount (post (rs ! k)))
             = stored (proposalCount (post (rs ! k))) ((c # cs) ! k)"
    if k: "k < length (c # cs)" for k
  proof (cases k)
    case 0
    then show ?thesis using cnt pr em rd keep rs by simp
  next
    case (Suc k')
    with k have "k' < length cs" by simp
    from ih [OF this] show ?thesis using Suc rs cnt by simp
  qed
  then show ?case using len rs by simp
qed

text \<open>
  C2, as the code has it. \<open>createProposal\<close> has no \<open>returns\<close> clause: a call returns
  no value, and here is one that succeeds, allocates the id 1 and returns nothing.
\<close>

theorem createProposal_returns_no_value:
  "\<not> isl (createProposal ''Aoma Park'' ''Add no trees'' 120 ''Initial proposal created'' 3600
            (env_at 0 7) HederaVoting_init)
 \<and> proposalCount (post (projr (createProposal ''Aoma Park'' ''Add no trees'' 120
      ''Initial proposal created'' 3600 (env_at 0 7) HederaVoting_init))) = 1
 \<and> returndata (projr (createProposal ''Aoma Park'' ''Add no trees'' 120
      ''Initial proposal created'' 3600 (env_at 0 7) HederaVoting_init)) = []
 \<and> returndata (projr (createProposal ''Aoma Park'' ''Add no trees'' 120
      ''Initial proposal created'' 3600 (env_at 0 7) HederaVoting_init)) \<noteq> [1]"
  by (simp add: createProposal_def require_def checked_inc_def env_at_def HederaVoting_init_def)

text \<open>
  C2, amended. For every sequence of \<open>createProposal\<close> calls that all succeed, from a
  ledger whose counter is 0: the k-th call sets the counter to k, so the ids allocated are
  the consecutive integers 1, 2, 3, \<dots> in the order of the calls, all different; the
  count of proposals at the end is the number of calls; the k-th call emits
  \<open>ProposalCreated\<close> with its id and its arguments and returns no value; and at the end
  the record stored under the id of the k-th call is still the one that call stored, so
  no id was used twice.
\<close>

theorem createProposal_allocates_consecutive_ids:
  assumes "proposalCount s0 = 0" and "createProposal_seq cs s0 = Inr (rs, s)"
  shows "length rs = length cs
    \<and> map (\<lambda>r. unat (proposalCount (post r))) rs = [1..<Suc (length cs)]
    \<and> distinct (map (\<lambda>r. proposalCount (post r)) rs)
    \<and> unat (getTotalProposals s) = length cs
    \<and> (\<forall>k<length cs.
           emitted (rs ! k) = [announced (proposalCount (post (rs ! k))) (cs ! k)]
         \<and> returndata (rs ! k) = []
         \<and> proposals s (proposalCount (post (rs ! k)))
             = stored (proposalCount (post (rs ! k))) (cs ! k))"
proof -
  from createProposal_seq_ids [OF assms(2)] assms(1)
  have len: "length rs = length cs"
    and ids: "\<And>k. k < length cs \<Longrightarrow> unat (proposalCount (post (rs ! k))) = Suc k"
    and rest: "\<forall>k<length cs.
           emitted (rs ! k) = [announced (proposalCount (post (rs ! k))) (cs ! k)]
         \<and> returndata (rs ! k) = []
         \<and> proposals s (proposalCount (post (rs ! k)))
             = stored (proposalCount (post (rs ! k))) (cs ! k)"
    by auto
  have m: "map (\<lambda>r. unat (proposalCount (post r))) rs = [1..<Suc (length cs)]"
    by (rule nth_equalityI) (use len ids in \<open>auto simp: nth_upt simp del: upt_Suc\<close>)
  have "distinct (map unat (map (\<lambda>r. proposalCount (post r)) rs))"
    using m by (simp add: comp_def del: upt_Suc)
  then have d: "distinct (map (\<lambda>r. proposalCount (post r)) rs)"
    using distinct_map [of unat "map (\<lambda>r. proposalCount (post r)) rs"] by blast
  from createProposal_seq_frame [OF assms(2)] assms(1)
  have "unat (getTotalProposals s) = length cs"
    by (simp add: getTotalProposals_def)
  with len m d rest show ?thesis by blast
qed

theorem createProposal_allocates_consecutive_ids_witness:
  "\<exists>rs s. createProposal_seq
       [(env_at 0 7, ''Aoma Park'', ''Add no trees'', 120, ''Initial proposal created'', 3600),
        (env_at 5 8, ''Second park'', ''Add a pond'', 80, ''topic'', 7200)]
       HederaVoting_init = Inr (rs, s)
     \<and> map (\<lambda>r. unat (proposalCount (post r))) rs = [1, 2]
     \<and> unat (getTotalProposals s) = 2
     \<and> returndata (rs ! 0) = []"
proof -
  let ?cs = "[(env_at 0 7, ''Aoma Park'', ''Add no trees'', 120, ''Initial proposal created'',
        3600 :: uint256),
      (env_at 5 8, ''Second park'', ''Add a pond'', 80 :: uint256, ''topic'', 7200)]"
  have z: "proposalCount HederaVoting_init = 0"
    by (simp add: HederaVoting_init_def)
  obtain rs s where r: "createProposal_seq ?cs HederaVoting_init = Inr (rs, s)"
    by (simp add: createProposal_def require_def checked_inc_def env_at_def HederaVoting_init_def)
  from createProposal_allocates_consecutive_ids [OF z r]
  have "map (\<lambda>r. unat (proposalCount (post r))) rs = [1, 2]"
    and "unat (getTotalProposals s) = 2" and "returndata (rs ! 0) = []"
    by (simp_all add: upt_conv_Cons)
  with r show ?thesis
    by - (intro exI conjI, assumption+)
qed

subsection \<open>The invariants hold in every reachable state\<close>

lemma voters_cast_append [simp]: "voters_cast i (xs @ ys) = voters_cast i xs @ voters_cast i ys"
  by (simp add: voters_cast_def)

lemma voters_cast_Nil [simp]: "voters_cast i [] = []"
  by (simp add: voters_cast_def)

lemma voters_cast_VoteCast [simp]:
  "voters_cast i [VoteCast j a b] = (if j = i then [a] else [])"
  by (simp add: voters_cast_def)

lemma voters_cast_ProposalCreated [simp]:
  "voters_cast i [ProposalCreated j n m sz t c d] = []"
  by (simp add: voters_cast_def)


lemma Hedera_inv_init: "Hedera_inv (HederaVoting_init, [])"
  by (simp add: Hedera_inv_def HederaVoting_init_def zero_Proposal_def)

lemma Flow_inv_init: "Flow_inv (FlowVoting_init, [])"
  by (simp add: Flow_inv_def FlowVoting_init_def zero_Proposal_def)

lemma Hedera_invD:
  assumes "Hedera_inv (h, evs)"
  shows "exists (proposals h i) \<Longrightarrow> unat i \<le> unat (proposalCount h)"
    and "\<not> exists (proposals h i) \<Longrightarrow> voters h i = []"
    and "voters h i = voters_cast i evs"
    and "unat (yesVotes (proposals h i)) + unat (noVotes (proposals h i)) = length (voters h i)"
    and "exists (proposals h i) \<Longrightarrow> proposalId (proposals h i) = i"
  using assms unfolding Hedera_inv_def fst_conv snd_conv by blast+

lemma Hedera_inv_create:
  assumes inv: "Hedera_inv (h, evs)" and r: "createProposal n m sz t d env h = Inr r"
  shows "Hedera_inv (post r, evs @ emitted r)"
proof -
  let ?new = "proposalCount h + 1"
  from r have ne: "proposalCount h \<noteq> - 1" by (simp add: createProposal_Inr)
  then have un: "unat ?new = Suc (unat (proposalCount h))" by (simp add: unat_inc)
  from Hedera_invD(1) [OF inv, of ?new] have "\<not> exists (proposals h ?new)"
    using un by auto
  with Hedera_invD(2) [OF inv, of ?new] have v0: "voters h ?new = []" by simp
  show ?thesis
    unfolding Hedera_inv_def
  proof (intro allI)
    fix i :: uint256
    note a = Hedera_invD(1) [OF inv, of i] and b = Hedera_invD(2) [OF inv, of i]
      and c = Hedera_invD(3) [OF inv, of i] and d = Hedera_invD(4) [OF inv, of i]
      and e = Hedera_invD(5) [OF inv, of i]
    show "(exists (proposals (fst (post r, evs @ emitted r)) i) \<longrightarrow>
            unat i \<le> unat (proposalCount (fst (post r, evs @ emitted r))))
        \<and> (\<not> exists (proposals (fst (post r, evs @ emitted r)) i) \<longrightarrow>
            voters (fst (post r, evs @ emitted r)) i = [])
        \<and> voters (fst (post r, evs @ emitted r)) i = voters_cast i (snd (post r, evs @ emitted r))
        \<and> unat (yesVotes (proposals (fst (post r, evs @ emitted r)) i))
           + unat (noVotes (proposals (fst (post r, evs @ emitted r)) i))
            = length (voters (fst (post r, evs @ emitted r)) i)
        \<and> (exists (proposals (fst (post r, evs @ emitted r)) i) \<longrightarrow>
            proposalId (proposals (fst (post r, evs @ emitted r)) i) = i)"
      using r a b c d e v0 un by (cases "i = ?new") (auto simp: createProposal_Inr)
  qed
qed

lemma Hedera_inv_vote:
  assumes inv: "Hedera_inv (h, evs)" and r: "HederaVoting_vote pid support v env h = Inr r"
  shows "Hedera_inv (post r, evs @ emitted r)"
  unfolding Hedera_inv_def
proof (intro allI)
  fix i :: uint256
  note a = Hedera_invD(1) [OF inv, of i] and b = Hedera_invD(2) [OF inv, of i]
    and c = Hedera_invD(3) [OF inv, of i] and d = Hedera_invD(4) [OF inv, of i]
    and e = Hedera_invD(5) [OF inv, of i]
  show "(exists (proposals (fst (post r, evs @ emitted r)) i) \<longrightarrow>
          unat i \<le> unat (proposalCount (fst (post r, evs @ emitted r))))
      \<and> (\<not> exists (proposals (fst (post r, evs @ emitted r)) i) \<longrightarrow>
          voters (fst (post r, evs @ emitted r)) i = [])
      \<and> voters (fst (post r, evs @ emitted r)) i = voters_cast i (snd (post r, evs @ emitted r))
      \<and> unat (yesVotes (proposals (fst (post r, evs @ emitted r)) i))
         + unat (noVotes (proposals (fst (post r, evs @ emitted r)) i))
          = length (voters (fst (post r, evs @ emitted r)) i)
      \<and> (exists (proposals (fst (post r, evs @ emitted r)) i) \<longrightarrow>
          proposalId (proposals (fst (post r, evs @ emitted r)) i) = i)"
    using r a b c d e by (cases "i = pid") (auto simp: HederaVoting_vote_Inr unat_inc)
qed

lemma Hedera_inv_step:
  "Hedera_inv st \<Longrightarrow> Hedera_inv (commit st (HederaVoting_exec env c (fst st)))"
proof (cases st)
  case (Pair h evs)
  assume "Hedera_inv st"
  with Pair show ?thesis
    by (cases c; cases "HederaVoting_exec env c h")
       (auto simp: commit_def intro: Hedera_inv_create Hedera_inv_vote)
qed

lemma Hedera_inv_run: "Hedera_inv st \<Longrightarrow> Hedera_inv (HederaVoting_run txs st)"
proof (induction txs arbitrary: st)
  case Nil
  then show ?case by simp
next
  case (Cons tx txs)
  obtain env c where tx: "tx = (env, c)" by (cases tx)
  from Cons.prems have "Hedera_inv (commit st (HederaVoting_exec env c (fst st)))"
    by (rule Hedera_inv_step)
  from Cons.IH [OF this] tx show ?case by simp
qed

lemma Flow_invD:
  assumes "Flow_inv (f, evs)"
  shows "exists (proposals f i) \<Longrightarrow> unat i \<le> unat (proposalCount f)"
    and "\<not> exists (proposals f i) \<Longrightarrow> voters_cast i evs = []"
    and "hasVoted f i a \<longleftrightarrow> a \<in> set (voters_cast i evs)"
    and "distinct (voters_cast i evs)"
    and "unat (yesVotes (proposals f i)) + unat (noVotes (proposals f i))
          = length (voters_cast i evs)"
  using assms unfolding Flow_inv_def fst_conv snd_conv by blast+

lemma Flow_inv_create:
  assumes inv: "Flow_inv (f, evs)" and r: "createProposal n m sz t d env f = Inr r"
  shows "Flow_inv (post r, evs @ emitted r)"
proof -
  let ?new = "proposalCount f + 1"
  from r have ne: "proposalCount f \<noteq> - 1" by (simp add: createProposal_Inr)
  then have un: "unat ?new = Suc (unat (proposalCount f))" by (simp add: unat_inc)
  from Flow_invD(1) [OF inv, of ?new] have "\<not> exists (proposals f ?new)"
    using un by auto
  with Flow_invD(2) [OF inv, of ?new] have v0: "voters_cast ?new evs = []" by simp
  show ?thesis
    unfolding Flow_inv_def fst_conv snd_conv
  proof (intro allI)
    fix i :: uint256
    note a = Flow_invD(1) [OF inv, of i] and b = Flow_invD(2) [OF inv, of i]
      and c = Flow_invD(3) [OF inv, of i] and d = Flow_invD(4) [OF inv, of i]
      and e = Flow_invD(5) [OF inv, of i]
    show "(exists (proposals (post r) i) \<longrightarrow> unat i \<le> unat (proposalCount (post r)))
        \<and> (\<not> exists (proposals (post r) i) \<longrightarrow> voters_cast i (evs @ emitted r) = [])
        \<and> (\<forall>a. hasVoted (post r) i a \<longleftrightarrow> a \<in> set (voters_cast i (evs @ emitted r)))
        \<and> distinct (voters_cast i (evs @ emitted r))
        \<and> unat (yesVotes (proposals (post r) i)) + unat (noVotes (proposals (post r) i))
            = length (voters_cast i (evs @ emitted r))"
      using r a b c d e v0 un by (cases "i = ?new") (auto simp: createProposal_Inr)
  qed
qed

lemma Flow_inv_vote:
  assumes inv: "Flow_inv (f, evs)" and r: "FlowVoting_vote pid support env f = Inr r"
  shows "Flow_inv (post r, evs @ emitted r)"
  unfolding Flow_inv_def fst_conv snd_conv
proof (intro allI)
  fix i :: uint256
  note a = Flow_invD(1) [OF inv, of i] and b = Flow_invD(2) [OF inv, of i]
    and c = Flow_invD(3) [OF inv, of i] and d = Flow_invD(4) [OF inv, of i]
    and e = Flow_invD(5) [OF inv, of i]
  show "(exists (proposals (post r) i) \<longrightarrow> unat i \<le> unat (proposalCount (post r)))
      \<and> (\<not> exists (proposals (post r) i) \<longrightarrow> voters_cast i (evs @ emitted r) = [])
      \<and> (\<forall>a. hasVoted (post r) i a \<longleftrightarrow> a \<in> set (voters_cast i (evs @ emitted r)))
      \<and> distinct (voters_cast i (evs @ emitted r))
      \<and> unat (yesVotes (proposals (post r) i)) + unat (noVotes (proposals (post r) i))
          = length (voters_cast i (evs @ emitted r))"
    using r a b c d e by (cases "i = pid") (auto simp: FlowVoting_vote_Inr unat_inc)
qed

lemma Flow_inv_step:
  "Flow_inv st \<Longrightarrow> Flow_inv (commit st (FlowVoting_exec env c (fst st)))"
proof (cases st)
  case (Pair f evs)
  assume "Flow_inv st"
  with Pair show ?thesis
    by (cases c; cases "FlowVoting_exec env c f")
       (auto simp: commit_def intro: Flow_inv_create Flow_inv_vote)
qed

lemma Flow_inv_run: "Flow_inv st \<Longrightarrow> Flow_inv (FlowVoting_run txs st)"
proof (induction txs arbitrary: st)
  case Nil
  then show ?case by simp
next
  case (Cons tx txs)
  obtain env c where tx: "tx = (env, c)" by (cases tx)
  from Cons.prems have "Flow_inv (commit st (FlowVoting_exec env c (fst st)))"
    by (rule Flow_inv_step)
  from Cons.IH [OF this] tx show ?case by simp
qed

lemma Hedera_inv_reachable: "Hedera_inv (HederaVoting_run txs (HederaVoting_init, []))"
  by (rule Hedera_inv_run [OF Hedera_inv_init])

lemma Flow_inv_reachable: "Flow_inv (FlowVoting_run txs (FlowVoting_init, []))"
  by (rule Flow_inv_run [OF Flow_inv_init])

lemma Flow_card_hasVoted:
  assumes "Flow_inv (f, evs)"
  shows "card {a. hasVoted f i a} = length (voters_cast i evs)"
proof -
  have "{a. hasVoted f i a} = set (voters_cast i evs)"
    using Flow_invD(3) [OF assms] by auto
  then show ?thesis
    using Flow_invD(4) [OF assms, of i] by (simp add: distinct_card)
qed

lemma Hedera_three_votes:
  "HederaVoting_run [(env_at 0 7, H_createProposal ''Aoma Park'' ''Add no trees'' 120
       ''Initial proposal created'' 3600), (env_at 50 9, H_vote 1 True 10),
       (env_at 60 9, H_vote 1 True 10), (env_at 70 9, H_vote 1 False 11),
       (env_at 3601 9, H_vote 1 False 12)] (HederaVoting_init, [])
   = (\<lparr>proposals = (\<lambda>i. zero_Proposal)(1 := (Aoma_Park 7)\<lparr>yesVotes := 2, noVotes := 1\<rparr>),
       proposalCount = 1, voters = (\<lambda>i. [])(1 := [10, 10, 11])\<rparr>,
      [ProposalCreated 1 ''Aoma Park'' ''Add no trees'' 120 ''Initial proposal created'' 7 3600,
       VoteCast 1 10 True, VoteCast 1 10 True, VoteCast 1 11 False])"
  by (simp add: HederaVoting_init_def env_at_def createProposal_def
      require_def checked_inc_def commit_def Aoma_Park_def HederaVoting_vote_def count_vote_def)

text \<open>
  A transaction emits at most one event and adds at most one to the count of proposals,
  so after \<open>n\<close> transactions from the initial state the log has at most \<open>n\<close> events, the
  count of proposals is at most \<open>n\<close> and so is every count of votes.
\<close>

lemma voters_cast_length: "length (voters_cast i evs) \<le> length evs"
proof (induction evs)
  case Nil
  then show ?case by simp
next
  case (Cons e evs)
  have "voters_cast i (e # evs) = cast_on i e @ voters_cast i evs"
    by (simp add: voters_cast_def)
  moreover have "length (cast_on i e) \<le> 1"
    by (cases e) simp_all
  ultimately show ?case using Cons by simp
qed

lemma commit_bounds:
  assumes "\<And>r. res = Inr r \<Longrightarrow> length (emitted r) \<le> 1
      \<and> unat (proposalCount (post r)) \<le> Suc (unat (proposalCount (fst st)))"
  shows "length (snd (commit st res)) \<le> Suc (length (snd st))
    \<and> unat (proposalCount (fst (commit st res))) \<le> Suc (unat (proposalCount (fst st)))"
  using assms by (cases res) (auto simp: commit_def)

lemma HederaVoting_exec_bounds:
  "HederaVoting_exec env c h = Inr r \<Longrightarrow> length (emitted r) \<le> 1
      \<and> unat (proposalCount (post r)) \<le> Suc (unat (proposalCount h))"
  by (cases c) (auto simp: createProposal_Inr HederaVoting_vote_Inr unat_inc)

lemma FlowVoting_exec_bounds:
  "FlowVoting_exec env c f = Inr r \<Longrightarrow> length (emitted r) \<le> 1
      \<and> unat (proposalCount (post r)) \<le> Suc (unat (proposalCount f))"
  by (cases c) (auto simp: createProposal_Inr FlowVoting_vote_Inr unat_inc)

lemma HederaVoting_step_bounds:
  "length (snd (commit st (HederaVoting_exec env c (fst st)))) \<le> Suc (length (snd st))
 \<and> unat (proposalCount (fst (commit st (HederaVoting_exec env c (fst st)))))
    \<le> Suc (unat (proposalCount (fst st)))"
  by (rule commit_bounds) (rule HederaVoting_exec_bounds)

lemma FlowVoting_step_bounds:
  "length (snd (commit st (FlowVoting_exec env c (fst st)))) \<le> Suc (length (snd st))
 \<and> unat (proposalCount (fst (commit st (FlowVoting_exec env c (fst st)))))
    \<le> Suc (unat (proposalCount (fst st)))"
  by (rule commit_bounds) (rule FlowVoting_exec_bounds)

lemma HederaVoting_run_bounds:
  "length (snd (HederaVoting_run txs st)) \<le> length (snd st) + length txs
 \<and> unat (proposalCount (fst (HederaVoting_run txs st)))
    \<le> unat (proposalCount (fst st)) + length txs"
proof (induction txs arbitrary: st)
  case Nil
  then show ?case by simp
next
  case (Cons tx txs)
  obtain env c where tx: "tx = (env, c)" by (cases tx)
  from Cons [of "commit st (HederaVoting_exec env c (fst st))"]
    HederaVoting_step_bounds [of st env c] tx
  show ?case by simp
qed

lemma FlowVoting_run_bounds:
  "length (snd (FlowVoting_run txs st)) \<le> length (snd st) + length txs
 \<and> unat (proposalCount (fst (FlowVoting_run txs st)))
    \<le> unat (proposalCount (fst st)) + length txs"
proof (induction txs arbitrary: st)
  case Nil
  then show ?case by simp
next
  case (Cons tx txs)
  obtain env c where tx: "tx = (env, c)" by (cases tx)
  from Cons [of "commit st (FlowVoting_exec env c (fst st))"]
    FlowVoting_step_bounds [of st env c] tx
  show ?case by simp
qed

lemma Hedera_counts_bounded:
  "unat (yesVotes (proposals (fst (HederaVoting_run txs (HederaVoting_init, []))) i))
     + unat (noVotes (proposals (fst (HederaVoting_run txs (HederaVoting_init, []))) i))
   \<le> length txs"
proof -
  obtain h evs where h: "HederaVoting_run txs (HederaVoting_init, []) = (h, evs)"
    by (cases "HederaVoting_run txs (HederaVoting_init, [])")
  have inv: "Hedera_inv (h, evs)" using Hedera_inv_reachable [of txs] h by simp
  have "length evs \<le> length txs"
    using HederaVoting_run_bounds [of txs "(HederaVoting_init, [])"] h by simp
  with voters_cast_length [of i evs] Hedera_invD(3,4) [OF inv, of i] show ?thesis
    by (simp add: h)
qed

subsection \<open>The counts are the number of votes accepted\<close>

text \<open>
  C7. In every state that a chain of transactions reaches from the initial state, for
  every proposal id, \<open>yesVotes + noVotes\<close> (as numbers, without wrapping) is the length of
  the proposal's \<open>voters\<close> array in \<open>HederaVoting\<close> and the number of identities with
  \<open>hasVoted\<close> true in \<open>FlowVoting\<close>; both are the number of \<open>VoteCast\<close> events for the
  proposal, that is, of votes accepted. Right after a creation in such a state, the new
  proposal has both counts 0 and no voter.
\<close>

theorem votes_counted_equal_votes_accepted:
  "unat (yesVotes (proposals (fst (HederaVoting_run htxs (HederaVoting_init, []))) i))
     + unat (noVotes (proposals (fst (HederaVoting_run htxs (HederaVoting_init, []))) i))
    = length (getVoters i (fst (HederaVoting_run htxs (HederaVoting_init, []))))
 \<and> length (getVoters i (fst (HederaVoting_run htxs (HederaVoting_init, []))))
    = length (voters_cast i (snd (HederaVoting_run htxs (HederaVoting_init, []))))
 \<and> unat (yesVotes (proposals (fst (FlowVoting_run ftxs (FlowVoting_init, []))) i))
     + unat (noVotes (proposals (fst (FlowVoting_run ftxs (FlowVoting_init, []))) i))
    = card {a. hasUserVoted i a (fst (FlowVoting_run ftxs (FlowVoting_init, [])))}
 \<and> card {a. hasUserVoted i a (fst (FlowVoting_run ftxs (FlowVoting_init, [])))}
    = length (voters_cast i (snd (FlowVoting_run ftxs (FlowVoting_init, []))))
 \<and> (createProposal n m sz t d env (fst (HederaVoting_run htxs (HederaVoting_init, []))) = Inr rh
      \<longrightarrow> yesVotes (proposals (post rh) (proposalCount (post rh))) = 0
        \<and> noVotes (proposals (post rh) (proposalCount (post rh))) = 0
        \<and> getVoters (proposalCount (post rh)) (post rh) = [])
 \<and> (createProposal n m sz t d env (fst (FlowVoting_run ftxs (FlowVoting_init, []))) = Inr rf
      \<longrightarrow> yesVotes (proposals (post rf) (proposalCount (post rf))) = 0
        \<and> noVotes (proposals (post rf) (proposalCount (post rf))) = 0
        \<and> {a. hasUserVoted (proposalCount (post rf)) a (post rf)} = {})"
proof -
  obtain h hevs where h: "HederaVoting_run htxs (HederaVoting_init, []) = (h, hevs)"
    by (cases "HederaVoting_run htxs (HederaVoting_init, [])")
  obtain f fevs where f: "FlowVoting_run ftxs (FlowVoting_init, []) = (f, fevs)"
    by (cases "FlowVoting_run ftxs (FlowVoting_init, [])")
  have hi: "Hedera_inv (h, hevs)" using Hedera_inv_reachable [of htxs] h by simp
  have fi: "Flow_inv (f, fevs)" using Flow_inv_reachable [of ftxs] f by simp
  have 1: "unat (yesVotes (proposals h i)) + unat (noVotes (proposals h i))
      = length (getVoters i h)
    \<and> length (getVoters i h) = length (voters_cast i hevs)
    \<and> unat (yesVotes (proposals f i)) + unat (noVotes (proposals f i))
      = card {a. hasUserVoted i a f}
    \<and> card {a. hasUserVoted i a f} = length (voters_cast i fevs)"
    using Hedera_invD(3,4) [OF hi, of i] Flow_invD(5) [OF fi, of i] Flow_card_hasVoted [OF fi, of i]
    by (simp add: getVoters_def hasUserVoted_def)
  have 2: "yesVotes (proposals (post rh) (proposalCount (post rh))) = 0
        \<and> noVotes (proposals (post rh) (proposalCount (post rh))) = 0
        \<and> getVoters (proposalCount (post rh)) (post rh) = []"
    if r: "createProposal n m sz t d env h = Inr rh"
  proof -
    from r have z: "yesVotes (proposals (post rh) (proposalCount (post rh))) = 0"
      "noVotes (proposals (post rh) (proposalCount (post rh))) = 0"
      by (auto simp: createProposal_Inr)
    from Hedera_inv_create [OF hi r] have "Hedera_inv (post rh, hevs @ emitted rh)" .
    from Hedera_invD(4) [OF this, of "proposalCount (post rh)"] z
    show ?thesis by (simp add: getVoters_def)
  qed
  have 3: "yesVotes (proposals (post rf) (proposalCount (post rf))) = 0
        \<and> noVotes (proposals (post rf) (proposalCount (post rf))) = 0
        \<and> {a. hasUserVoted (proposalCount (post rf)) a (post rf)} = {}"
    if r: "createProposal n m sz t d env f = Inr rf"
  proof -
    from r have z: "yesVotes (proposals (post rf) (proposalCount (post rf))) = 0"
      "noVotes (proposals (post rf) (proposalCount (post rf))) = 0"
      by (auto simp: createProposal_Inr)
    from Flow_inv_create [OF fi r] have inv: "Flow_inv (post rf, fevs @ emitted rf)" .
    from Flow_invD(5) [OF inv, of "proposalCount (post rf)"] z
    have "voters_cast (proposalCount (post rf)) (fevs @ emitted rf) = []" by simp
    with Flow_invD(3) [OF inv, of "proposalCount (post rf)"] z
    show ?thesis by (simp add: hasUserVoted_def)
  qed
  from 1 2 3 show ?thesis
    unfolding h f fst_conv snd_conv by blast
qed

theorem votes_counted_equal_votes_accepted_witness:
  "length (getVoters 1 (fst (HederaVoting_run
      [(env_at 0 7, H_createProposal ''Aoma Park'' ''Add no trees'' 120
         ''Initial proposal created'' 3600), (env_at 50 9, H_vote 1 True 10),
       (env_at 60 9, H_vote 1 True 10), (env_at 70 9, H_vote 1 False 11),
       (env_at 3601 9, H_vote 1 False 12)] (HederaVoting_init, [])))) = 3
 \<and> card {a. hasUserVoted 1 a (fst (FlowVoting_run
      [(env_at 0 7, F_createProposal ''Aoma Park'' ''Add no trees'' 120
         ''Initial proposal created'' 3600), (env_at 50 7, F_vote 1 True)]
      (FlowVoting_init, [])))} = 1
 \<and> (\<exists>rh. createProposal ''Aoma Park'' ''Add no trees'' 120 ''Initial proposal created'' 3600
         (env_at 0 7) (fst (HederaVoting_run [] (HederaVoting_init, []))) = Inr rh
       \<and> getVoters (proposalCount (post rh)) (post rh) = [])"
proof -
  let ?htxs = "[(env_at 0 7, H_createProposal ''Aoma Park'' ''Add no trees'' 120
         ''Initial proposal created'' 3600), (env_at 50 9, H_vote 1 True 10),
       (env_at 60 9, H_vote 1 True 10), (env_at 70 9, H_vote 1 False 11),
       (env_at 3601 9, H_vote 1 False 12)]"
  let ?ftxs = "[(env_at 0 7, F_createProposal ''Aoma Park'' ''Add no trees'' 120
         ''Initial proposal created'' 3600), (env_at 50 7, F_vote 1 True)]"
  obtain rh where rh: "createProposal ''Aoma Park'' ''Add no trees'' 120
      ''Initial proposal created'' 3600 (env_at 0 7)
      (fst (HederaVoting_run [] (HederaVoting_init, []))) = Inr rh"
    by (simp add: createProposal_Inr env_at_def HederaVoting_init_def)
  have a: "length (getVoters 1 (fst (HederaVoting_run ?htxs (HederaVoting_init, [])))) = 3
      \<and> card {a. hasUserVoted 1 a (fst (FlowVoting_run ?ftxs (FlowVoting_init, [])))} = 1"
    using votes_counted_equal_votes_accepted [where i = 1 and htxs = ?htxs and ftxs = ?ftxs]
    unfolding Hedera_three_votes Flow_voted_reached
    by (simp add: Flow_voted_def Aoma_Park_def)
  have b: "getVoters (proposalCount (post rh)) (post rh) = []"
    using votes_counted_equal_votes_accepted [where htxs = "[]" and rh = rh
        and n = "''Aoma Park''" and m = "''Add no trees''" and sz = 120
        and t = "''Initial proposal created''" and d = 3600 and env = "env_at 0 7"] rh
    by blast
  from a b rh show ?thesis by blast
qed

subsection \<open>A second vote in FlowVoting\<close>




subsection \<open>A second vote in HederaVoting\<close>

lemma len256: "LENGTH(256) = 256"
  by simp

lemma of_nat_neq_max: "k < 2 ^ 256 - 1 \<Longrightarrow> (of_nat k :: uint256) \<noteq> - 1"
proof
  assume k: "k < 2 ^ 256 - 1" and e: "(of_nat k :: uint256) = - 1"
  have "(- 1 :: uint256) = of_nat (2 ^ 256 - 1)"
    by simp
  with e have "unat (of_nat k :: uint256) = unat (of_nat (2 ^ 256 - 1) :: uint256)"
    by (simp only:)
  then have "k mod 2 ^ 256 = (2 ^ 256 - 1) mod 2 ^ 256"
    by (simp only: unat_of_nat len256)
  with k show False by simp
qed

lemma of_nat_inc: "(of_nat k :: uint256) + 1 = of_nat (Suc k)"
  by simp

lemma unat_of_nat_small: "k < 2 ^ 256 \<Longrightarrow> unat (of_nat k :: uint256) = k"
  by (simp add: unat_of_nat)

lemma Hedera_voted_twice:
  "HederaVoting_run [(env_at 0 7, H_createProposal ''Aoma Park'' ''Add no trees'' 120
       ''Initial proposal created'' 3600), (env_at 50 9, H_vote 1 True 10)]
     (HederaVoting_init, [])
   = (Hedera_voted 1,
      [ProposalCreated 1 ''Aoma Park'' ''Add no trees'' 120 ''Initial proposal created'' 7 3600,
       VoteCast 1 10 True])"
  unfolding Hedera_voted_def
  by (simp add: HederaVoting_init_def env_at_def createProposal_def
      require_def checked_inc_def commit_def Aoma_Park_def HederaVoting_vote_def count_vote_def)

text \<open>
  C3. \<open>HederaVoting.vote\<close> has no duplicate check and never fails with \<open>DuplicateVote\<close>.
  In every state of the ledger that fewer than \<open>2^256 - 1\<close> transactions reach from the
  initial state, for every proposal that is active (it exists and the time is at most its
  deadline) and every identity \<open>v\<close>, whether \<open>v\<close> is among the voters of the proposal
  already or not, a vote that names \<open>v\<close> succeeds: it adds one to the counter of its side,
  emits \<open>VoteCast\<close> and appends \<open>v\<close> to the voters of the proposal, where \<open>v\<close> then occurs
  once more than before. In every reachable state \<open>getVoters\<close> returns the identities of
  the votes accepted, in the order they were cast.
\<close>

theorem HederaVoting_accepts_repeated_vote:
  "(length txs < 2 ^ 256 - 1
      \<and> exists (proposals (fst (HederaVoting_run txs (HederaVoting_init, []))) i)
      \<and> block_timestamp env
          \<le> deadline (proposals (fst (HederaVoting_run txs (HederaVoting_init, []))) i)
    \<longrightarrow> (\<exists>r. HederaVoting_vote i support v env
                 (fst (HederaVoting_run txs (HederaVoting_init, []))) = Inr r
          \<and> getVoters i (post r)
             = getVoters i (fst (HederaVoting_run txs (HederaVoting_init, []))) @ [v]
          \<and> count_list (getVoters i (post r)) v
             = Suc (count_list
                 (getVoters i (fst (HederaVoting_run txs (HederaVoting_init, [])))) v)
          \<and> unat (if support then yesVotes (proposals (post r) i)
                   else noVotes (proposals (post r) i))
             = Suc (unat (if support
                  then yesVotes (proposals (fst (HederaVoting_run txs (HederaVoting_init, []))) i)
                  else noVotes (proposals (fst (HederaVoting_run txs (HederaVoting_init, []))) i)))
          \<and> emitted r = [VoteCast i v support]))
 \<and> HederaVoting_vote i support v env h \<noteq> Inl DuplicateVote
 \<and> getVoters i (fst (HederaVoting_run txs (HederaVoting_init, [])))
    = voters_cast i (snd (HederaVoting_run txs (HederaVoting_init, [])))"
proof -
  obtain hh evs where hh: "HederaVoting_run txs (HederaVoting_init, []) = (hh, evs)"
    by (cases "HederaVoting_run txs (HederaVoting_init, [])")
  have inv: "Hedera_inv (hh, evs)" using Hedera_inv_reachable [of txs] hh by simp
  have 1: "\<exists>r. HederaVoting_vote i support v env hh = Inr r
          \<and> getVoters i (post r) = getVoters i hh @ [v]
          \<and> count_list (getVoters i (post r)) v = Suc (count_list (getVoters i hh) v)
          \<and> unat (if support then yesVotes (proposals (post r) i)
                   else noVotes (proposals (post r) i))
             = Suc (unat (if support then yesVotes (proposals hh i)
                          else noVotes (proposals hh i)))
          \<and> emitted r = [VoteCast i v support]"
    if len: "length txs < 2 ^ 256 - 1" and ex: "exists (proposals hh i)"
      and dl: "block_timestamp env \<le> deadline (proposals hh i)"
  proof -
    let ?c = "if support then yesVotes (proposals hh i) else noVotes (proposals hh i)"
    have "unat (yesVotes (proposals hh i)) + unat (noVotes (proposals hh i)) \<le> length txs"
      using Hedera_counts_bounded [of txs i] by (simp add: hh)
    with len have "unat ?c < 2 ^ 256 - 1"
      by (simp split: if_splits)
    from of_nat_neq_max [OF this] have ne: "?c \<noteq> - 1"
      by simp
    with ex dl obtain r where r: "HederaVoting_vote i support v env hh = Inr r"
      by (auto simp: HederaVoting_vote_Inr)
    from r ne have "getVoters i (post r) = getVoters i hh @ [v]"
      and "unat (if support then yesVotes (proposals (post r) i)
                   else noVotes (proposals (post r) i))
             = Suc (unat (if support then yesVotes (proposals hh i)
                          else noVotes (proposals hh i)))"
      and "emitted r = [VoteCast i v support]"
      by (auto simp: HederaVoting_vote_Inr getVoters_def unat_inc)
    moreover from this(1)
    have "count_list (getVoters i (post r)) v = Suc (count_list (getVoters i hh) v)"
      by simp
    ultimately show ?thesis using r by blast
  qed
  have 2: "HederaVoting_vote i support v env h \<noteq> Inl DuplicateVote"
    by (simp add: HederaVoting_vote_def require_def DuplicateVote_def count_vote_def
        checked_inc_def)
  from Hedera_invD(3) [OF inv, of i] have 3: "getVoters i hh = voters_cast i evs"
    by (simp add: getVoters_def)
  from 1 2 3 show ?thesis
    unfolding hh fst_conv snd_conv by blast
qed

theorem HederaVoting_accepts_repeated_vote_witness:
  "getVoters 1 (fst (HederaVoting_run
       [(env_at 0 7, H_createProposal ''Aoma Park'' ''Add no trees'' 120
           ''Initial proposal created'' 3600), (env_at 50 9, H_vote 1 True 10)]
       (HederaVoting_init, []))) = [10]
 \<and> (\<exists>r. HederaVoting_vote 1 True 10 (env_at 60 9) (fst (HederaVoting_run
       [(env_at 0 7, H_createProposal ''Aoma Park'' ''Add no trees'' 120
           ''Initial proposal created'' 3600), (env_at 50 9, H_vote 1 True 10)]
       (HederaVoting_init, []))) = Inr r
     \<and> getVoters 1 (post r) = [10, 10]
     \<and> count_list (getVoters 1 (post r)) 10 = 2
     \<and> unat (yesVotes (proposals (post r) 1)) = 2)
 \<and> getVoters 1 (fst (HederaVoting_run
      [(env_at 0 7, H_createProposal ''Aoma Park'' ''Add no trees'' 120
          ''Initial proposal created'' 3600), (env_at 50 9, H_vote 1 True 10),
       (env_at 60 9, H_vote 1 True 10), (env_at 70 9, H_vote 1 False 11),
       (env_at 3601 9, H_vote 1 False 12)] (HederaVoting_init, []))) = [10, 10, 11]"
proof -
  let ?two = "[(env_at 0 7, H_createProposal ''Aoma Park'' ''Add no trees'' 120
           ''Initial proposal created'' 3600), (env_at 50 9, H_vote 1 True 10)]"
  let ?five = "[(env_at 0 7, H_createProposal ''Aoma Park'' ''Add no trees'' 120
          ''Initial proposal created'' 3600), (env_at 50 9, H_vote 1 True 10),
       (env_at 60 9, H_vote 1 True 10), (env_at 70 9, H_vote 1 False 11),
       (env_at 3601 9, H_vote 1 False 12)]"
  have s: "fst (HederaVoting_run ?two (HederaVoting_init, [])) = Hedera_voted 1"
    unfolding Hedera_voted_twice by simp
  have pre: "length ?two < 2 ^ 256 - 1
      \<and> exists (proposals (fst (HederaVoting_run ?two (HederaVoting_init, []))) 1)
      \<and> block_timestamp (env_at 60 9)
          \<le> deadline (proposals (fst (HederaVoting_run ?two (HederaVoting_init, []))) 1)"
    unfolding s by (simp add: Hedera_voted_def Aoma_Park_def env_at_def)
  have g: "getVoters 1 (Hedera_voted 1) = [10]"
    by (simp add: getVoters_def Hedera_voted_def)
  from HederaVoting_accepts_repeated_vote [where txs = ?two and i = 1 and env = "env_at 60 9"
      and support = True and v = 10, THEN conjunct1, rule_format, OF pre]
  obtain r where r: "HederaVoting_vote 1 True 10 (env_at 60 9)
        (fst (HederaVoting_run ?two (HederaVoting_init, []))) = Inr r"
    and v2: "getVoters 1 (post r)
        = getVoters 1 (fst (HederaVoting_run ?two (HederaVoting_init, []))) @ [10]"
    and c2: "count_list (getVoters 1 (post r)) 10
        = Suc (count_list (getVoters 1 (fst (HederaVoting_run ?two (HederaVoting_init, [])))) 10)"
    and y2: "unat (yesVotes (proposals (post r) 1))
        = Suc (unat (yesVotes (proposals (fst (HederaVoting_run ?two (HederaVoting_init, []))) 1)))"
    by auto
  have a: "getVoters 1 (fst (HederaVoting_run ?two (HederaVoting_init, []))) = [10]"
    unfolding s by (rule g)
  have b: "getVoters 1 (post r) = [10, 10] \<and> count_list (getVoters 1 (post r)) 10 = 2
      \<and> unat (yesVotes (proposals (post r) 1)) = 2"
    using v2 c2 y2 unfolding s by (simp add: getVoters_def Hedera_voted_def)
  have c: "getVoters 1 (fst (HederaVoting_run ?five (HederaVoting_init, []))) = [10, 10, 11]"
    using HederaVoting_accepts_repeated_vote [where txs = ?five and i = 1, THEN conjunct2,
        THEN conjunct2]
    unfolding Hedera_three_votes by (simp add: voters_cast_def)
  from a b c r show ?thesis by blast
qed

subsection \<open>getActiveProposals\<close>

lemma scan_body_ok:
  assumes "unat ac < unat i" and "unat i \<le> length temp"
  shows "scan_body env s i (temp, ac)
     = Inr (if is_active env s i then (temp[unat ac := i], ac + 1) else (temp, ac))"
proof -
  from assms(1) have "unat ac < unat (- 1 :: uint256)"
    using word_le_nat_alt [of i "- 1"] by simp
  then have "ac \<noteq> - 1" by auto
  with assms show ?thesis
    by (simp add: scan_body_def is_active_def array_set_def checked_inc_def)
qed

lemma ids_from_Cons:
  assumes "i \<le> n"
  shows "ids_from i n = i # map of_nat [Suc (unat i)..<Suc (unat n)]"
proof -
  from assms have "unat i < Suc (unat n)"
    by (simp add: word_le_nat_alt)
  then show ?thesis
    by (simp add: ids_from_def upt_conv_Cons del: upt_Suc)
qed

lemma ids_from_Nil: "\<not> i \<le> n \<Longrightarrow> ids_from i n = []"
  by (simp add: ids_from_def word_le_nat_alt)

lemma scan_loop_below_max:
  assumes n: "proposalCount s \<noteq> - 1"
  shows "Suc (unat (proposalCount s)) - unat i = k \<Longrightarrow>
      length temp = unat (proposalCount s) \<Longrightarrow> unat ac < unat i \<Longrightarrow>
      \<exists>temp' ac'. scan_loop env s i (temp, ac) = Inr (temp', ac')
        \<and> length temp' = length temp
        \<and> unat ac' = unat ac + length (filter (is_active env s) (ids_from i (proposalCount s)))
        \<and> take (unat ac') temp'
            = take (unat ac) temp @ filter (is_active env s) (ids_from i (proposalCount s))"
proof (induction k arbitrary: i temp ac)
  case 0
  then have "\<not> i \<le> proposalCount s"
    by (simp add: word_le_nat_alt)
  then show ?case
    by (subst scan_loop.simps) (simp add: ids_from_Nil)
next
  case (Suc k)
  from Suc.prems(1) have le: "i \<le> proposalCount s"
    by (simp add: word_le_nat_alt)
  have ine: "i \<noteq> - 1"
  proof
    assume "i = - 1"
    with le have "- 1 \<le> proposalCount s" by simp
    moreover have "proposalCount s \<le> - 1" by simp
    ultimately have "proposalCount s = - 1" by (rule antisym [rotated])
    with n show False by simp
  qed
  then have ui: "unat (i + 1) = Suc (unat i)"
    by (rule unat_inc)
  from le have ilen: "unat i \<le> length temp"
    using Suc.prems(2) by (simp add: word_le_nat_alt)
  have acne: "ac \<noteq> - 1"
    using Suc.prems(3) word_le_nat_alt [of i "- 1"] by auto
  have ids: "ids_from i (proposalCount s) = i # ids_from (i + 1) (proposalCount s)"
    using ids_from_Cons [OF le] ui by (simp add: ids_from_def)
  have k: "Suc (unat (proposalCount s)) - unat (i + 1) = k"
    using Suc.prems(1) ui by simp
  show ?case
  proof (cases "is_active env s i")
    case True
    have ac1: "unat (ac + 1) = Suc (unat ac)"
      using acne by (rule unat_inc)
    have "\<exists>temp' ac'. scan_loop env s (i + 1) (temp[unat ac := i], ac + 1) = Inr (temp', ac')
        \<and> length temp' = length (temp[unat ac := i])
        \<and> unat ac' = unat (ac + 1)
            + length (filter (is_active env s) (ids_from (i + 1) (proposalCount s)))
        \<and> take (unat ac') temp'
            = take (unat (ac + 1)) (temp[unat ac := i])
              @ filter (is_active env s) (ids_from (i + 1) (proposalCount s))"
      by (rule Suc.IH [OF k]) (use Suc.prems ui ac1 in simp_all)
    then obtain temp' ac' where
      r: "scan_loop env s (i + 1) (temp[unat ac := i], ac + 1) = Inr (temp', ac')"
      and l: "length temp' = length temp"
      and c: "unat ac' = Suc (unat ac)
            + length (filter (is_active env s) (ids_from (i + 1) (proposalCount s)))"
      and t: "take (unat ac') temp'
            = take (Suc (unat ac)) (temp[unat ac := i])
              @ filter (is_active env s) (ids_from (i + 1) (proposalCount s))"
      using ac1 by auto
    have "unat ac < length temp"
      using Suc.prems(3) ilen by simp
    then have tk: "take (Suc (unat ac)) (temp[unat ac := i]) = take (unat ac) temp @ [i]"
      by (simp add: take_Suc_conv_app_nth)
    have "scan_loop env s i (temp, ac) = Inr (temp', ac')"
      by (subst scan_loop.simps)
         (simp add: le scan_body_ok [OF Suc.prems(3) ilen] True checked_inc_def ine r)
    with l c t tk True ids show ?thesis
      by simp
  next
    case False
    have "\<exists>temp' ac'. scan_loop env s (i + 1) (temp, ac) = Inr (temp', ac')
        \<and> length temp' = length temp
        \<and> unat ac' = unat ac
            + length (filter (is_active env s) (ids_from (i + 1) (proposalCount s)))
        \<and> take (unat ac') temp'
            = take (unat ac) temp
              @ filter (is_active env s) (ids_from (i + 1) (proposalCount s))"
      by (rule Suc.IH [OF k]) (use Suc.prems ui in simp_all)
    then obtain temp' ac' where
      r: "scan_loop env s (i + 1) (temp, ac) = Inr (temp', ac')"
      and l: "length temp' = length temp"
      and c: "unat ac' = unat ac
            + length (filter (is_active env s) (ids_from (i + 1) (proposalCount s)))"
      and t: "take (unat ac') temp'
            = take (unat ac) temp
              @ filter (is_active env s) (ids_from (i + 1) (proposalCount s))"
      by auto
    have "scan_loop env s i (temp, ac) = Inr (temp', ac')"
      by (subst scan_loop.simps)
         (simp add: le scan_body_ok [OF Suc.prems(3) ilen] False checked_inc_def ine r)
    with l c t False ids show ?thesis
      by simp
  qed
qed

lemma copy_loop_ok:
  "unat ac - unat j = k \<Longrightarrow> unat ac \<le> length temp \<Longrightarrow> length ap = unat ac \<Longrightarrow>
   unat j \<le> unat ac \<Longrightarrow>
   copy_loop temp ac j ap = Inr (take (unat j) ap @ drop (unat j) (take (unat ac) temp))"
proof (induction k arbitrary: j ap)
  case 0
  then have "\<not> j < ac" and "unat j = unat ac"
    by (simp_all add: word_less_nat_alt)
  with 0 show ?case
    by (subst copy_loop.simps) simp
next
  case (Suc k)
  from Suc.prems(1) have lt: "j < ac" and ult: "unat j < unat ac"
    by (simp_all add: word_less_nat_alt)
  have jne: "j \<noteq> - 1"
    using ult word_le_nat_alt [of ac "- 1"] by auto
  then have uj: "unat (j + 1) = Suc (unat j)"
    by (rule unat_inc)
  have g: "array_get temp j = Inr (temp ! unat j)"
    using ult Suc.prems(2) by (simp add: array_get_def)
  have st: "array_set ap j (temp ! unat j) = Inr (ap[unat j := temp ! unat j])"
    using ult Suc.prems(3) by (simp add: array_set_def)
  have "copy_loop temp ac (j + 1) (ap[unat j := temp ! unat j])
      = Inr (take (unat (j + 1)) (ap[unat j := temp ! unat j])
             @ drop (unat (j + 1)) (take (unat ac) temp))"
    by (rule Suc.IH) (use Suc.prems uj ult in simp_all)
  moreover have "take (Suc (unat j)) (ap[unat j := temp ! unat j]) = take (unat j) ap @ [temp ! unat j]"
    using ult Suc.prems(3) by (simp add: take_Suc_conv_app_nth)
  moreover have "drop (unat j) (take (unat ac) temp)
      = temp ! unat j # drop (Suc (unat j)) (take (unat ac) temp)"
    using ult Suc.prems(2) by (simp add: Cons_nth_drop_Suc [symmetric])
  ultimately have "copy_loop temp ac (j + 1) (ap[unat j := temp ! unat j])
      = Inr (take (unat j) ap @ drop (unat j) (take (unat ac) temp))"
    using uj by simp
  then show ?case
    by (subst copy_loop.simps) (simp add: lt g st checked_inc_def jne)
qed

lemma ids_upto_from: "ids_upto n = ids_from 1 n"
  by (simp add: ids_upto_def ids_from_def)

lemma new_array_small: "unat n < 2 ^ 64 \<Longrightarrow> new_array n = Inr (replicate (unat n) 0)"
  by (simp add: new_array_def)

lemma small_neq_max: "unat (n :: uint256) < 2 ^ 64 \<Longrightarrow> n \<noteq> - 1"
proof -
  assume "unat n < 2 ^ 64"
  then have "unat n < 2 ^ 256 - 1" by simp
  from of_nat_neq_max [OF this] show ?thesis by simp
qed

lemma getActiveProposals_within_limit:
  assumes "unat (proposalCount s) < 2 ^ 64"
  shows "getActiveProposals env s
     = Inr (filter (is_active env s) (ids_upto (proposalCount s)))"
proof -
  let ?temp = "replicate (unat (proposalCount s)) (0 :: uint256)"
  have ne: "proposalCount s \<noteq> - 1"
    using assms by (rule small_neq_max)
  have "\<exists>temp' ac'. scan_loop env s 1 (?temp, 0) = Inr (temp', ac')
        \<and> length temp' = length ?temp
        \<and> unat ac' = unat (0 :: uint256)
            + length (filter (is_active env s) (ids_from 1 (proposalCount s)))
        \<and> take (unat ac') temp'
            = take (unat (0 :: uint256)) ?temp
              @ filter (is_active env s) (ids_from 1 (proposalCount s))"
    by (rule scan_loop_below_max [OF ne refl]) simp_all
  then obtain temp' ac' where
    r: "scan_loop env s 1 (?temp, 0) = Inr (temp', ac')"
    and l: "length temp' = unat (proposalCount s)"
    and c: "unat ac' = length (filter (is_active env s) (ids_upto (proposalCount s)))"
    and t: "take (unat ac') temp' = filter (is_active env s) (ids_upto (proposalCount s))"
    by (auto simp: ids_upto_from)
  have "length (filter (is_active env s) (ids_upto (proposalCount s)))
      \<le> length (ids_upto (proposalCount s))"
    by (rule length_filter_le)
  moreover have "length (ids_upto (proposalCount s)) = unat (proposalCount s)"
    by (simp add: ids_upto_def del: upt_Suc)
  ultimately have b: "unat ac' \<le> length temp'"
    using c l by (simp only:)
  with l assms have small: "unat ac' < 2 ^ 64"
    by simp
  have "copy_loop temp' ac' 0 (replicate (unat ac') 0)
      = Inr (take (unat (0 :: uint256)) (replicate (unat ac') 0)
             @ drop (unat (0 :: uint256)) (take (unat ac') temp'))"
    by (rule copy_loop_ok [OF refl b]) simp_all
  with r t show ?thesis
    by (simp add: getActiveProposals_def new_array_small [OF assms] new_array_small [OF small])
qed

lemma getActiveProposals_beyond_limit:
  "2 ^ 64 \<le> unat (proposalCount s) \<Longrightarrow> getActiveProposals env s = Inl (Panic 65)"
  by (simp add: getActiveProposals_def new_array_def)

lemma set_ids_upto: "set (ids_upto n) = {i. 1 \<le> i \<and> i \<le> n}"
proof (intro set_eqI iffI)
  fix i assume "i \<in> set (ids_upto n)"
  then obtain k where k: "1 \<le> k" "k \<le> unat n" and i: "i = of_nat k"
    by (auto simp: ids_upto_def simp del: upt_Suc)
  have "unat n < 2 ^ 256"
    using unsigned_less [of n] by simp
  with k have "unat i = k"
    using i by (simp add: unat_of_nat_small)
  with k show "i \<in> {i. 1 \<le> i \<and> i \<le> n}"
    by (simp add: word_le_nat_alt)
next
  fix i assume "i \<in> {i. 1 \<le> i \<and> i \<le> n}"
  then have "1 \<le> unat i" "unat i \<le> unat n"
    by (simp_all add: word_le_nat_alt)
  then have "unat i \<in> set [1..<Suc (unat n)]"
    by (simp del: upt_Suc)
  then have "of_nat (unat i) \<in> set (ids_upto n)"
    unfolding ids_upto_def set_map by (rule imageI)
  then show "i \<in> set (ids_upto n)"
    by simp
qed

lemma sorted_ids_upto: "sorted_wrt (<) (ids_upto n)"
proof -
  have b: "unat n < 2 ^ 256"
    using unsigned_less [of n] by simp
  have "sorted_wrt (\<lambda>x y. (of_nat x :: uint256) < of_nat y) [1..<Suc (unat n)]"
  proof (rule sorted_wrt_mono_rel [of _ "(<)"])
    show "sorted_wrt (<) [1..<Suc (unat n)]"
      by (simp del: upt_Suc)
  next
    fix x y assume "x \<in> set [1..<Suc (unat n)]" "y \<in> set [1..<Suc (unat n)]" "x < y"
    with b show "(of_nat x :: uint256) < of_nat y"
      by (simp add: word_less_nat_alt unat_of_nat_small del: upt_Suc)
  qed
  then show ?thesis
    by (simp add: ids_upto_def sorted_wrt_map del: upt_Suc)
qed

lemma ids_upto_3: "ids_upto 3 = [1, 2, 3]"
  by (simp add: ids_upto_def upt_conv_Cons)

lemma replicate_numeral: "replicate (numeral k) x = x # replicate (pred_numeral k) x"
  by (simp add: numeral_eq_Suc)

text \<open>
  The loops of \<open>getActiveProposals\<close>, run on the three proposals at time 200.
\<close>

lemma getActiveProposals_example:
  "getActiveProposals (env_at 200 9) three_proposals = Inr [1, 3]"
  by (simp add: getActiveProposals_def scan_loop.simps copy_loop.simps scan_body_def
      array_set_def array_get_def checked_inc_def new_array_def three_proposals_def
      env_at_def Aoma_Park_def zero_Proposal_def word_le_nat_alt word_less_nat_alt
      replicate_numeral)

lemma Hedera_filled_0: "Hedera_filled 0 = HederaVoting_init"
  by (auto simp: Hedera_filled_def HederaVoting_init_def fun_eq_iff)

lemma Hedera_filled_step:
  assumes "k < 2 ^ 256 - 1"
  shows "createProposal ''Aoma Park'' ''Add no trees'' 120 ''Initial proposal created'' 3600
           (env_at 0 7) (Hedera_filled k)
     = Inr \<lparr>post = Hedera_filled (Suc k),
            emitted = [ProposalCreated (of_nat (Suc k)) ''Aoma Park'' ''Add no trees'' 120
                         ''Initial proposal created'' 7 3600],
            returndata = []\<rparr>"
proof -
  have ne: "proposalCount (Hedera_filled k) \<noteq> - 1"
    using of_nat_neq_max [OF assms] by (simp add: Hedera_filled_def)
  have u: "unat (of_nat (Suc k) :: uint256) = Suc k"
    using assms by (intro unat_of_nat_small) simp
  have "(\<lambda>i :: uint256. if 0 < unat i \<and> unat i \<le> k
            then (Aoma_Park 7)\<lparr>proposalId := i\<rparr> else zero_Proposal)
          (of_nat (Suc k) := (Aoma_Park 7)\<lparr>proposalId := of_nat (Suc k)\<rparr>)
      = (\<lambda>i. if 0 < unat i \<and> unat i \<le> Suc k
            then (Aoma_Park 7)\<lparr>proposalId := i\<rparr> else zero_Proposal)"
  proof (rule ext)
    fix i :: uint256
    show "((\<lambda>i :: uint256. if 0 < unat i \<and> unat i \<le> k
            then (Aoma_Park 7)\<lparr>proposalId := i\<rparr> else zero_Proposal)
          (of_nat (Suc k) := (Aoma_Park 7)\<lparr>proposalId := of_nat (Suc k)\<rparr>)) i
      = (if 0 < unat i \<and> unat i \<le> Suc k
            then (Aoma_Park 7)\<lparr>proposalId := i\<rparr> else zero_Proposal)"
    proof (cases "i = of_nat (Suc k)")
      case True
      then show ?thesis using u by simp
    next
      case False
      then have "unat i \<noteq> Suc k"
        using u by (metis word_unat_eq_iff)
      with False show ?thesis by (auto simp: le_Suc_eq)
    qed
  qed
  then have st: "(Hedera_filled k)\<lparr>proposalCount := proposalCount (Hedera_filled k) + 1,
        proposals := (proposals (Hedera_filled k))(proposalCount (Hedera_filled k) + 1 :=
          \<lparr>proposalId = proposalCount (Hedera_filled k) + 1, parkName = ''Aoma Park'',
           message = ''Add no trees'', parkSize = 120,
           chatTopicHistory = ''Initial proposal created'', creator = msg_sender (env_at 0 7),
           yesVotes = 0, noVotes = 0, deadline = 3600, exists = True\<rparr>)\<rparr>
      = Hedera_filled (Suc k)"
    by (simp add: Hedera_filled_def Aoma_Park_def env_at_def of_nat_inc del: of_nat_Suc)
  have "createProposal ''Aoma Park'' ''Add no trees'' 120 ''Initial proposal created'' 3600
           (env_at 0 7) (Hedera_filled k) = Inr r \<longleftrightarrow>
     r = \<lparr>post = Hedera_filled (Suc k),
            emitted = [ProposalCreated (of_nat (Suc k)) ''Aoma Park'' ''Add no trees'' 120
                         ''Initial proposal created'' 7 3600],
            returndata = []\<rparr>" for r
    unfolding createProposal_Inr st using ne
    by (simp add: env_at_def Hedera_filled_def of_nat_inc del: of_nat_Suc)
  then show ?thesis by simp
qed

lemma Hedera_filled_run:
  "k + n \<le> 2 ^ 256 - 1 \<Longrightarrow>
   fst (HederaVoting_run (replicate n (env_at 0 7, H_createProposal ''Aoma Park''
          ''Add no trees'' 120 ''Initial proposal created'' 3600)) (Hedera_filled k, evs))
     = Hedera_filled (k + n)"
proof (induction n arbitrary: k evs)
  case 0
  then show ?case by simp
next
  case (Suc n)
  from Suc.prems have k: "k < 2 ^ 256 - 1" and kn: "Suc k + n \<le> 2 ^ 256 - 1"
    by simp_all
  from Suc.IH [OF kn] show ?case
    by (simp add: Hedera_filled_step [OF k] commit_def del: of_nat_Suc)
qed

lemma Hedera_filled_reachable:
  "k \<le> 2 ^ 256 - 1 \<Longrightarrow>
   Hedera_filled k = fst (HederaVoting_run (replicate k (env_at 0 7, H_createProposal
      ''Aoma Park'' ''Add no trees'' 120 ''Initial proposal created'' 3600))
      (HederaVoting_init, []))"
  using Hedera_filled_run [of 0 k "[]"] by (simp add: Hedera_filled_0)

lemma three_proposals_reached:
  "fst (HederaVoting_run
     [(env_at 0 7, H_createProposal ''Aoma Park'' ''Add no trees'' 120
         ''Initial proposal created'' 3600),
      (env_at 0 8, H_createProposal ''Aoma Park'' ''Add no trees'' 120
         ''Initial proposal created'' 100),
      (env_at 0 9, H_createProposal ''Aoma Park'' ''Add no trees'' 120
         ''Initial proposal created'' 5000)] (HederaVoting_init, []))
   = three_proposals"
  by (simp add: three_proposals_def HederaVoting_init_def env_at_def createProposal_def
      require_def checked_inc_def commit_def Aoma_Park_def)

text \<open>
  C5. For every ledger state whose \<open>proposalCount\<close> is below \<open>2^64\<close> and every current
  time, \<open>getActiveProposals\<close> returns the list of the ids from 1 to \<open>proposalCount\<close>, in
  ascending order, filtered by "exists and current time at most the deadline": an id is
  in the result exactly when it is between 1 and \<open>proposalCount\<close> and its proposal is
  active; the result is strictly ascending; and for a time after the deadline of a
  proposal the call, on the same state, returns a list without its id. Every state that
  fewer than \<open>2^64\<close> transactions reach from the initial state, in either contract, is such
  a state. (From \<open>2^64\<close> proposals on, the allocation of \<open>tempActive\<close> reverts.)
\<close>

theorem getActiveProposals_lists_active_ids:
  "(unat (proposalCount s) < 2 ^ 64 \<longrightarrow>
      getActiveProposals env s = Inr (filter (is_active env s) (ids_upto (proposalCount s)))
    \<and> (\<forall>i. i \<in> set (filter (is_active env s) (ids_upto (proposalCount s)))
          \<longleftrightarrow> 1 \<le> i \<and> i \<le> proposalCount s \<and> exists (proposals s i)
              \<and> block_timestamp env \<le> deadline (proposals s i))
    \<and> sorted_wrt (<) (filter (is_active env s) (ids_upto (proposalCount s)))
    \<and> (\<forall>env' i. deadline (proposals s i) < block_timestamp env' \<longrightarrow>
          (\<exists>ids. getActiveProposals env' s = Inr ids \<and> i \<notin> set ids)))
 \<and> (length htxs < 2 ^ 64 \<longrightarrow>
      unat (proposalCount (fst (HederaVoting_run htxs (HederaVoting_init, [])))) < 2 ^ 64)
 \<and> (length ftxs < 2 ^ 64 \<longrightarrow>
      unat (proposalCount (fst (FlowVoting_run ftxs (FlowVoting_init, [])))) < 2 ^ 64)"
proof -
  have 1: "getActiveProposals env' s = Inr (filter (is_active env' s) (ids_upto (proposalCount s)))"
    if "unat (proposalCount s) < 2 ^ 64" for env'
    using that by (rule getActiveProposals_within_limit)
  have 2: "i \<in> set (filter (is_active env s) (ids_upto (proposalCount s)))
          \<longleftrightarrow> 1 \<le> i \<and> i \<le> proposalCount s \<and> exists (proposals s i)
              \<and> block_timestamp env \<le> deadline (proposals s i)" for i
    by (auto simp: set_ids_upto is_active_def)
  have 3: "sorted_wrt (<) (filter (is_active env s) (ids_upto (proposalCount s)))"
    by (rule sorted_wrt_filter [OF sorted_ids_upto])
  have 4: "i \<notin> set (filter (is_active env' s) (ids_upto (proposalCount s)))"
    if "deadline (proposals s i) < block_timestamp env'" for env' i
    using that by (auto simp: is_active_def)
  have 5: "unat (proposalCount (fst (HederaVoting_run htxs (HederaVoting_init, [])))) < 2 ^ 64"
    if "length htxs < 2 ^ 64"
    using HederaVoting_run_bounds [of htxs "(HederaVoting_init, [])"] that
    by (simp add: HederaVoting_init_def)
  have 6: "unat (proposalCount (fst (FlowVoting_run ftxs (FlowVoting_init, [])))) < 2 ^ 64"
    if "length ftxs < 2 ^ 64"
    using FlowVoting_run_bounds [of ftxs "(FlowVoting_init, [])"] that
    by (simp add: FlowVoting_init_def)
  from 1 2 3 4 5 6 show ?thesis by simp
qed

theorem getActiveProposals_lists_active_ids_witness:
  "unat (proposalCount three_proposals) < 2 ^ 64
 \<and> getActiveProposals (env_at 200 9) three_proposals = Inr [1, 3]
 \<and> getActiveProposals (env_at 3601 9) three_proposals = Inr [3]
 \<and> unat (proposalCount (fst (HederaVoting_run
     [(env_at 0 7, H_createProposal ''Aoma Park'' ''Add no trees'' 120
         ''Initial proposal created'' 3600),
      (env_at 0 8, H_createProposal ''Aoma Park'' ''Add no trees'' 120
         ''Initial proposal created'' 100),
      (env_at 0 9, H_createProposal ''Aoma Park'' ''Add no trees'' 120
         ''Initial proposal created'' 5000)] (HederaVoting_init, [])))) < 2 ^ 64"
proof -
  let ?txs = "[(env_at 0 7, H_createProposal ''Aoma Park'' ''Add no trees'' 120
         ''Initial proposal created'' 3600),
      (env_at 0 8, H_createProposal ''Aoma Park'' ''Add no trees'' 120
         ''Initial proposal created'' 100),
      (env_at 0 9, H_createProposal ''Aoma Park'' ''Add no trees'' 120
         ''Initial proposal created'' 5000)]"
  have h: "unat (proposalCount three_proposals) < 2 ^ 64"
    by (simp add: three_proposals_def)
  have l: "length ?txs < 2 ^ 64"
    by simp
  note a = getActiveProposals_lists_active_ids [where s = three_proposals
      and env = "env_at 200 9", THEN conjunct1, rule_format, OF h, THEN conjunct1]
  note b = getActiveProposals_lists_active_ids [where s = three_proposals
      and env = "env_at 3601 9", THEN conjunct1, rule_format, OF h, THEN conjunct1]
  note c = getActiveProposals_lists_active_ids [where htxs = ?txs,
      THEN conjunct2, THEN conjunct1, rule_format, OF l]
  have "getActiveProposals (env_at 200 9) three_proposals = Inr [1, 3]"
    unfolding a
    by (simp add: three_proposals_def ids_upto_3 is_active_def env_at_def Aoma_Park_def
        zero_Proposal_def)
  moreover have "getActiveProposals (env_at 3601 9) three_proposals = Inr [3]"
    unfolding b
    by (simp add: three_proposals_def ids_upto_3 is_active_def env_at_def Aoma_Park_def
        zero_Proposal_def)
  ultimately show ?thesis
    using h c by (intro conjI)
qed

subsection \<open>The listing endpoint\<close>

lemma proposals_loop_eq:
  "Suc totalProposals - k = n \<Longrightarrow>
   proposals_loop world k acc = acc @ concat (map (listed world) [k..<Suc totalProposals])"
proof (induction n arbitrary: k acc)
  case 0
  then show ?case
    by (subst proposals_loop.simps) simp
next
  case (Suc n)
  then have le: "k \<le> totalProposals" and n: "Suc totalProposals - Suc k = n"
    by simp_all
  have u: "[k..<Suc totalProposals] = k # [Suc k..<Suc totalProposals]"
    using le by (simp add: upt_conv_Cons del: upt_Suc)
  have step: "(case contract_query world k of
                None \<Rightarrow> acc
              | Some result \<Rightarrow> if view_isActive result then acc @ [result] else acc)
      = acc @ listed world k"
    by (simp add: listed_def split: option.splits)
  show ?case
    by (subst proposals_loop.simps) (simp add: le step Suc.IH [OF n] u del: upt_Suc)
qed

lemma listed_reachable:
  assumes "Hedera_inv (h, evs)" and "world k = Some (env, h)" and "k < 2 ^ 256"
  shows "map view_id (listed world k) = (if is_active env h (of_nat k) then [of_nat k] else [])"
proof (cases "exists (proposals h (of_nat k))")
  case True
  with Hedera_invD(5) [OF assms(1), of "of_nat k"] assms(2) show ?thesis
    by (simp add: listed_def contract_query_def getProposal_eq view_id_def view_isActive_def
        is_active_def)
next
  case False
  with assms(2) show ?thesis
    by (simp add: listed_def contract_query_def getProposal_eq is_active_def)
qed

text \<open>
  C10. \<open>GET /api/proposals\<close> queries the ids 1 to 20 and no other: its response is
  the same for any two worlds that agree on the queries for these ids. Whatever reachable
  states of the ledger the queries meet, the ids in the response are those among
  1, \<dots>, 20 whose query is answered with an active proposal, in ascending order: an id
  greater than 20 is never in the response, whether its proposal is active or not and
  whatever \<open>getTotalProposals\<close> returns.
\<close>

theorem api_proposals_first_twenty:
  assumes "\<forall>k env s. world k = Some (env, s) \<longrightarrow>
             (\<exists>txs. s = fst (HederaVoting_run txs (HederaVoting_init, [])))"
  shows "map view_id (api_proposals world) = filter (answered world) (map of_nat [1..<21])
    \<and> (\<forall>i. 20 < i \<longrightarrow> i \<notin> set (map view_id (api_proposals world)))
    \<and> (\<forall>world'. (\<forall>k. 1 \<le> k \<and> k \<le> 20 \<longrightarrow> world' k = world k) \<longrightarrow>
          api_proposals world' = api_proposals world)"
proof -
  have one: "map view_id (listed world k) = filter (answered world) [of_nat k]"
    if "k < 21" for k
  proof (cases "world k")
    case None
    have b: "k < 2 ^ 256" using that by simp
    then have "unat (of_nat k :: uint256) = k" by (rule unat_of_nat_small)
    with None show ?thesis
      by (simp add: listed_def contract_query_def answered_def)
  next
    case (Some q)
    obtain env h where q: "q = (env, h)" by (cases q)
    with Some have w: "world k = Some (env, h)" by simp
    with assms obtain txs where "h = fst (HederaVoting_run txs (HederaVoting_init, []))"
      by blast
    moreover obtain h' evs where h: "HederaVoting_run txs (HederaVoting_init, []) = (h', evs)"
      by (cases "HederaVoting_run txs (HederaVoting_init, [])")
    ultimately have inv: "Hedera_inv (h, evs)"
      using Hedera_inv_reachable [of txs] by simp
    have b: "k < 2 ^ 256" using that by simp
    then have "unat (of_nat k :: uint256) = k" by (rule unat_of_nat_small)
    with listed_reachable [where world = world and k = k, OF inv w b] w show ?thesis
      by (simp add: answered_def)
  qed
  have "map view_id (concat (map (listed world) ks)) = filter (answered world) (map of_nat ks)"
    if "\<forall>k \<in> set ks. k < 21" for ks
    using that by (induction ks) (simp_all add: one)
  from this [of "[1..<21]"]
  have 1: "map view_id (api_proposals world) = filter (answered world) (map of_nat [1..<21])"
    by (simp add: api_proposals_def proposals_loop_eq [OF refl] totalProposals_def del: upt_Suc)
  have 2: "i \<notin> set (map view_id (api_proposals world))" if "20 < i" for i
  proof
    assume "i \<in> set (map view_id (api_proposals world))"
    then obtain k where k: "1 \<le> k" "k < 21" and i: "i = of_nat k"
      unfolding 1 by auto
    then have "unat i = k" by (simp add: unat_of_nat_small)
    with k that show False
      by (simp add: word_less_nat_alt)
  qed
  have 3: "api_proposals world' = api_proposals world"
    if "\<forall>k. 1 \<le> k \<and> k \<le> 20 \<longrightarrow> world' k = world k" for world'
  proof -
    have c: "api_proposals w = concat (map (listed w) [1..<21])"
      for w :: "nat \<Rightarrow> (Env \<times> HederaVoting) option"
      by (simp add: api_proposals_def proposals_loop_eq [OF refl] totalProposals_def
          del: upt_Suc)
    have "map (listed world') [1..<21] = map (listed world) [1..<21]"
      by (rule map_cong [OF refl]) (use that in \<open>simp add: listed_def contract_query_def\<close>)
    then show ?thesis
      by (simp only: c)
  qed
  from 1 2 3 show ?thesis by blast
qed

theorem api_proposals_first_twenty_witness:
  "Hedera_filled 21 = fst (HederaVoting_run (replicate 21 (env_at 0 7, H_createProposal
      ''Aoma Park'' ''Add no trees'' 120 ''Initial proposal created'' 3600))
      (HederaVoting_init, []))
 \<and> unat (getTotalProposals (Hedera_filled 21)) = 21
 \<and> getProposal 21 (env_at 50 9) (Hedera_filled 21)
     = Inr (21, ''Aoma Park'', ''Add no trees'', 120, ''Initial proposal created'', 7,
            0, 0, 3600, True)
 \<and> map view_id (api_proposals (\<lambda>k. Some (env_at 50 9, Hedera_filled 21)))
     = map of_nat [1..<21]
 \<and> 21 \<notin> set (map view_id (api_proposals (\<lambda>k. Some (env_at 50 9, Hedera_filled 21))))"
proof -
  have r: "\<forall>k env s. (\<lambda>k. Some (env_at 50 9, Hedera_filled 21)) k = Some (env, s) \<longrightarrow>
       (\<exists>txs. s = fst (HederaVoting_run txs (HederaVoting_init, [])))"
    using Hedera_filled_reachable [of 21] by auto
  have t: "unat (getTotalProposals (Hedera_filled 21)) = 21"
    by (simp add: getTotalProposals_def Hedera_filled_def)
  have g: "getProposal 21 (env_at 50 9) (Hedera_filled 21)
     = Inr (21, ''Aoma Park'', ''Add no trees'', 120, ''Initial proposal created'', 7,
            0, 0, 3600, True)"
    by (simp add: getProposal_eq Hedera_filled_def Aoma_Park_def env_at_def)
  have a: "answered (\<lambda>k. Some (env_at 50 9, Hedera_filled 21)) i"
    if "i \<in> set (map of_nat [1..<21])" for i
  proof -
    from that obtain k where k: "1 \<le> k" "k < 21" and i: "i = of_nat k"
      by auto
    then have "unat i = k" by (simp add: unat_of_nat_small)
    with k show ?thesis
      by (simp add: answered_def is_active_def Hedera_filled_def Aoma_Park_def env_at_def)
  qed
  note first = api_proposals_first_twenty [OF r]
  from first [THEN conjunct1] have m: "map view_id (api_proposals (\<lambda>k. Some (env_at 50 9, Hedera_filled 21)))
      = filter (answered (\<lambda>k. Some (env_at 50 9, Hedera_filled 21))) (map of_nat [1..<21])"
    by (simp del: upt_Suc)
  have "(20 :: uint256) < 21"
    by simp
  with first [THEN conjunct2, THEN conjunct1]
  have n: "21 \<notin> set (map view_id (api_proposals (\<lambda>k. Some (env_at 50 9, Hedera_filled 21))))"
    by blast
  have "filter (answered (\<lambda>k. Some (env_at 50 9, Hedera_filled 21))) (map of_nat [1..<21])
      = map of_nat [1..<21]"
    by (rule filter_True) (use a in blast)
  with m have "map view_id (api_proposals (\<lambda>k. Some (env_at 50 9, Hedera_filled 21)))
      = map of_nat [1..<21]"
    by (simp only:)
  moreover have "Hedera_filled 21 = fst (HederaVoting_run (replicate 21 (env_at 0 7,
      H_createProposal ''Aoma Park'' ''Add no trees'' 120 ''Initial proposal created'' 3600))
      (HederaVoting_init, []))"
    by (rule Hedera_filled_reachable) simp
  ultimately show ?thesis
    using t g n by (intro conjI)
qed

end
